theory Spec2Isabelle
  imports Main "HOL-Library.Word"
begin

section \<open>Peer connection of the BitTorrent client: data model\<close>

text \<open>
  The development follows \<^verbatim>\<open>protocol/bt/torrent/peer_conn.go\<close>. Go's \<^verbatim>\<open>int64\<close>
  and \<^verbatim>\<open>int\<close> values (\<^verbatim>\<open>int\<close> taken as 64 bits wide) are integers with the two's
  complement wrap-around written out (\<open>i64\<close>), \<^verbatim>\<open>uint32\<close> message fields are
  \<open>32 word\<close>, bytes are \<open>8 word\<close>. Lengths of slices are natural numbers. The
  goroutines of a connection are modelled one at a time: what another goroutine or
  the outside world contributes (the clock, results of socket and file operations,
  values received from channels) is an argument of the function that consumes it.
\<close>

type_synonym byte = "8 word"
type_synonym uint32 = "32 word"

definition i64 :: "int \<Rightarrow> int" where
  "i64 x = (x + 2 ^ 63) mod 2 ^ 64 - 2 ^ 63"

text \<open>\<^verbatim>\<open>metainfo.FileDetail\<close>: path segments and the torrent-relative byte range
  \<open>[Begin, End)\<close> of one file.\<close>

record FileDetail =
  Path :: "string list"
  Begin :: int
  End :: int

text \<open>\<^verbatim>\<open>type fileBlock struct\<close> (lines 432-437).\<close>

record fileBlock =
  filepath :: string
  fileSeek :: int
  blockBegin :: int
  blockEnd :: int

text \<open>The decoded \<^verbatim>\<open>message.Piece\<close>: piece index, offset inside the piece, payload.\<close>

record Piece =
  Piece_Index :: uint32
  Piece_Begin :: uint32
  Piece_Block :: "byte list"

text \<open>The fields of \<^verbatim>\<open>metainfo.Info\<close> that the connection reads. Only the number of
  entries of \<^verbatim>\<open>Files\<close> is used, so the entry type is a parameter.\<close>

record 'f Info =
  Name :: string
  PieceLength :: int
  Files :: "'f list"
  Pieces :: "byte list list"

text \<open>Run-time panics of the Go code, kept as values: a slice or index expression
  out of range, and the explicit \<^verbatim>\<open>panic(err)\<close> calls of the verification
  (lines 384, 389, 394).\<close>

datatype panic =
    SliceBoundsOutOfRange
  | IndexOutOfRange
  | PanicOpen
  | PanicSeek
  | PanicCopy

text \<open>Error values. \<open>errPieceCheckFailed\<close> is the variable of line 28,
  \<open>errInfoHash\<close> the error built at line 102, \<open>errReadyFail\<close> and
  \<open>errReadyTimeout\<close> those of lines 197 and 200, \<open>errEOF\<close> is \<^verbatim>\<open>io.EOF\<close>;
  \<open>errExternal n\<close> stands for an error returned by the network, the operating
  system or a codec.\<close>

datatype error =
    errPieceCheckFailed
  | errInfoHash
  | errReadyFail
  | errReadyTimeout
  | errEOF
  | errExternal nat

text \<open>\<^verbatim>\<open>peer.Handshake\<close> and the \<^verbatim>\<open>message.Request\<close> built by
  \<^verbatim>\<open>message.BuildRequest(index, begin, length)\<close>.\<close>

record Handshake =
  Reserved :: "byte list"
  InfoHash :: "byte list"
  PeerID :: "byte list"

record Request =
  Request_Index :: uint32
  Request_Begin :: uint32
  Request_Length :: uint32

text \<open>What is handed to \<^verbatim>\<open>pc.conn.Write\<close>: a message before its encoding (the
  encoders are outside this file), or raw bytes.\<close>

datatype wire =
    WHandshake Handshake
  | WInterested
  | WUnchoke
  | WRequest Request
  | WRaw "byte list"

text \<open>The effects of the connection on its socket, its channels, the piece-state
  tracker and the file system, in the order in which the code performs them. The
  boolean of a file-system event says whether the call succeeded.\<close>

datatype event =
    EvConnWrite wire
  | EvConnClose
  | EvSendReady bool
  | EvCloseReady
  | EvSendDownloaded "error option"
  | EvCloseDownloaded
  | EvDequeue
  | EvSetBlockDone int int
  | EvOpenFile string bool
  | EvWriteAt string "byte list" int bool
  | EvOpen string bool
  | EvSeek string int bool
  | EvCopyN string int nat

text \<open>The fields of \<^verbatim>\<open>peerConn\<close> (lines 31-54) that the handlers assign. The
  socket and the channels appear through the events.\<close>

record peerConn =
  amChoking :: bool
  amInterested :: bool
  peerChoking :: bool
  peerInterested :: bool
  lastReciveTime :: int
  bitfield :: "int list option"
  readyEnd :: bool

section \<open>Locating the file of an offset\<close>

text \<open>\<^verbatim>\<open>getWriteFile\<close> (lines 423-430): the index of the first file whose range
  holds the offset, or \<open>-1\<close>.\<close>

fun getWriteFile_from :: "int \<Rightarrow> int \<Rightarrow> FileDetail list \<Rightarrow> int" where
  "getWriteFile_from i pieceBegin [] = - 1"
| "getWriteFile_from i pieceBegin (f # fds) =
     (if Begin f \<le> pieceBegin \<and> End f > pieceBegin then i
      else getWriteFile_from (i + 1) pieceBegin fds)"

definition getWriteFile :: "int \<Rightarrow> FileDetail list \<Rightarrow> int" where
  "getWriteFile pieceBegin fds = getWriteFile_from 0 pieceBegin fds"

text \<open>The slice expression \<^verbatim>\<open>fds[writeIndex:]\<close> panics unless
  \<open>0 \<le> writeIndex \<le> len(fds)\<close>; the index expression \<^verbatim>\<open>fds[writeIndex]\<close> panics
  unless \<open>0 \<le> writeIndex < len(fds)\<close>.\<close>

definition slice_from :: "'a list \<Rightarrow> int \<Rightarrow> panic + 'a list" where
  "slice_from xs i =
     (if 0 \<le> i \<and> i \<le> int (length xs) then Inr (drop (nat i) xs)
      else Inl SliceBoundsOutOfRange)"

definition index_at :: "'a list \<Rightarrow> int \<Rightarrow> panic + 'a" where
  "index_at xs i =
     (if 0 \<le> i \<and> i < int (length xs) then Inr (xs ! nat i)
      else Inl IndexOutOfRange)"

section \<open>Mapping a block to file regions\<close>

text \<open>\<^verbatim>\<open>filepath.Join\<close> and \<^verbatim>\<open>path.Join\<close> of the standard library drop empty
  elements and join the rest with the separator \<open>/\<close>; their final lexical cleaning
  of the result is the identity on plain segment names and is left out.\<close>

fun join_sep :: "string list \<Rightarrow> string" where
  "join_sep [] = []"
| "join_sep [s] = s"
| "join_sep (s # t # ss) = s @ ''/'' @ join_sep (t # ss)"

definition Join :: "string list \<Rightarrow> string" where
  "Join elems = join_sep (filter (\<lambda>s. s \<noteq> []) elems)"

text \<open>The loop of lines 322-344 over \<^verbatim>\<open>fds[writeIndex:]\<close>, with the loop variables
  \<^verbatim>\<open>blockFileBegin\<close> and \<^verbatim>\<open>blockSeek\<close> as arguments.\<close>

fun walkFiles :: "int \<Rightarrow> int \<Rightarrow> int \<Rightarrow> FileDetail list \<Rightarrow> fileBlock list" where
  "walkFiles blockLength blockFileBegin blockSeek [] = []"
| "walkFiles blockLength blockFileBegin blockSeek (f # fs) =
     (let fileWritable = i64 (End f - blockFileBegin);
          blockWritable = i64 (blockLength - blockSeek);
          fb = \<lparr>filepath = Join (Path f),
                fileSeek = i64 (blockFileBegin - Begin f),
                blockBegin = blockSeek,
                blockEnd = 0\<rparr>
      in if fileWritable \<ge> blockWritable
         then [fb\<lparr>blockEnd := i64 (blockSeek + blockWritable)\<rparr>]
         else fb\<lparr>blockEnd := i64 (blockSeek + fileWritable)\<rparr>
              # walkFiles blockLength (End f) (i64 (blockSeek + fileWritable)) fs)"

text \<open>Lines 302-304: the torrent-relative offsets of the piece and of the block.\<close>

definition pieceBeginOf :: "'f Info \<Rightarrow> Piece \<Rightarrow> int" where
  "pieceBeginOf info piece = i64 (uint (Piece_Index piece) * i64 (PieceLength info))"

definition blockBeginOf :: "'f Info \<Rightarrow> Piece \<Rightarrow> int" where
  "blockBeginOf info piece = i64 (pieceBeginOf info piece + uint (Piece_Begin piece))"

text \<open>Lines 306-345: the file blocks of a received block.\<close>

definition fileBlocksAt :: "'f Info \<Rightarrow> FileDetail list \<Rightarrow> int \<Rightarrow> int \<Rightarrow> panic + fileBlock list" where
  "fileBlocksAt info fds blkBegin blockLength =
     (if length (Files info) = 0
      then Inr [\<lparr>filepath = Name info, fileSeek = blkBegin,
                 blockBegin = 0, blockEnd = blockLength\<rparr>]
      else (case slice_from fds (getWriteFile blkBegin fds) of
              Inl p \<Rightarrow> Inl p
            | Inr fs \<Rightarrow> Inr (walkFiles blockLength blkBegin 0 fs)))"

definition fileBlocksOf :: "'f Info \<Rightarrow> FileDetail list \<Rightarrow> Piece \<Rightarrow> panic + fileBlock list" where
  "fileBlocksOf info fds piece =
     fileBlocksAt info fds (blockBeginOf info piece) (int (length (Piece_Block piece)))"

section \<open>Writing the file blocks\<close>

text \<open>The answer of the file system to the open-and-write of one file block:
  \<^verbatim>\<open>os.OpenFile\<close> fails, \<^verbatim>\<open>file.WriteAt\<close> fails, or both succeed. It is a
  parameter of the model, asked with the position of the file block in the list and
  the file name.\<close>

datatype io_outcome = IoOk | OpenFileErr | WriteAtErr

text \<open>The slice expression \<^verbatim>\<open>piece.Block[f.blockBegin:f.blockEnd]\<close>.\<close>

definition slice_range :: "'a list \<Rightarrow> int \<Rightarrow> int \<Rightarrow> panic + 'a list" where
  "slice_range xs b e =
     (if 0 \<le> b \<and> b \<le> e \<and> e \<le> int (length xs)
      then Inr (take (nat (e - b)) (drop (nat b) xs))
      else Inl SliceBoundsOutOfRange)"

datatype write_result = WriteOk | WriteFailed | WritePanic panic

text \<open>The loop of lines 347-366, up to the point where the error is known.
  \<^verbatim>\<open>WriteAt\<close> refuses a negative offset.\<close>

fun writeBlocks ::
  "(nat \<Rightarrow> string \<Rightarrow> io_outcome) \<Rightarrow> string \<Rightarrow> byte list \<Rightarrow> nat \<Rightarrow> fileBlock list
     \<Rightarrow> event list \<times> write_result" where
  "writeBlocks wr root block k [] = ([], WriteOk)"
| "writeBlocks wr root block k (f # fbs) =
     (let name = Join [root, filepath f] in
      if wr k name = OpenFileErr then ([EvOpenFile name False], WriteFailed)
      else (case slice_range block (blockBegin f) (blockEnd f) of
              Inl p \<Rightarrow> ([EvOpenFile name True], WritePanic p)
            | Inr data \<Rightarrow>
                if wr k name = WriteAtErr \<or> fileSeek f < 0
                then ([EvOpenFile name True, EvWriteAt name data (fileSeek f) False], WriteFailed)
                else (case writeBlocks wr root block (Suc k) fbs of
                        (evs, r) \<Rightarrow>
                          (EvOpenFile name True # EvWriteAt name data (fileSeek f) True # evs, r))))"

section \<open>Verifying a completed piece\<close>

text \<open>What \<^verbatim>\<open>os.Open\<close>, \<^verbatim>\<open>file.Seek\<close> and \<^verbatim>\<open>io.CopyN\<close> give for a file name:
  one of the three calls fails (with an error other than end of file), or the file
  has the given content.\<close>

datatype read_outcome = OpenErr | SeekErr | CopyErr | FileData "byte list"

text \<open>The loop of lines 380-405 over \<^verbatim>\<open>fds[writeIndex:]\<close>. The result is the events,
  the bytes streamed into the digest and the panic that ended the walk, if any.
  \<^verbatim>\<open>io.CopyN\<close> copies the requested number of bytes or stops at the end of the
  file.\<close>

fun verifyWalk ::
  "(string \<Rightarrow> read_outcome) \<Rightarrow> string \<Rightarrow> int \<Rightarrow> int \<Rightarrow> FileDetail list
     \<Rightarrow> event list \<times> byte list \<times> panic option" where
  "verifyWalk rd root fileBegin pieceLength [] = ([], [], None)"
| "verifyWalk rd root fileBegin pieceLength (fd # fds) =
     (case index_at (Path fd) 0 of
        Inl p \<Rightarrow> ([], [], Some p)
      | Inr seg \<Rightarrow>
          (let name = Join [root, seg] in
           case rd name of
             OpenErr \<Rightarrow> ([EvOpen name False], [], Some PanicOpen)
           | SeekErr \<Rightarrow> ([EvOpen name True, EvSeek name fileBegin False], [], Some PanicSeek)
           | CopyErr \<Rightarrow> ([EvOpen name True, EvSeek name fileBegin True], [], Some PanicCopy)
           | FileData content \<Rightarrow>
               if fileBegin < 0
               then ([EvOpen name True, EvSeek name fileBegin False], [], Some PanicSeek)
               else (let got = take (nat pieceLength) (drop (nat fileBegin) content);
                         pieceLength' = i64 (pieceLength - int (length got));
                         evs = [EvOpen name True, EvSeek name fileBegin True,
                                EvCopyN name pieceLength (length got)]
                     in if pieceLength' > 0
                        then (case verifyWalk rd root 0 pieceLength' fds of
                                (evs', data, p) \<Rightarrow> (evs @ evs', got @ data, p))
                        else (evs, got, None))))"

text \<open>The torrent of the connection: destination directory, metadata, and the results
  of \<^verbatim>\<open>GetFileDetails()\<close> and \<^verbatim>\<open>GetPieceLength(index)\<close>, which are outside this
  file.\<close>

record 'f Torrent =
  T_Path :: string
  T_Info :: "'f Info"
  T_FileDetails :: "FileDetail list"
  T_PieceLength :: "int \<Rightarrow> int"

text \<open>The operations of the shared piece-state tracker (\<^verbatim>\<open>pc.torrent.pieceStates\<close>)
  that the connection calls; the tracker itself is outside this file and is a
  parameter. \<open>ps_isFinish\<close> is the test \<^verbatim>\<open>getState(i) == stateFinish\<close>,
  \<open>ps_blockCount\<close> reads \<^verbatim>\<open>states[index].blockCount\<close>.\<close>

record 'ps pieceStates =
  ps_size :: "'ps \<Rightarrow> int"
  ps_isFinish :: "'ps \<Rightarrow> int \<Rightarrow> bool"
  ps_isBlockDone :: "'ps \<Rightarrow> int \<Rightarrow> int \<Rightarrow> bool"
  ps_setBlockDone :: "'ps \<Rightarrow> int \<Rightarrow> int \<Rightarrow> 'ps"
  ps_isPieceDone :: "'ps \<Rightarrow> int \<Rightarrow> bool"
  ps_blockCount :: "'ps \<Rightarrow> int \<Rightarrow> int"

record os_env =
  os_write :: "nat \<Rightarrow> string \<Rightarrow> io_outcome"
  os_read :: "string \<Rightarrow> read_outcome"

datatype outcome = Returned | Panicked panic

text \<open>Lines 406-418: the digest of the bytes read, copied into a 20-byte array and
  compared with the expected hash of the piece. The hash function is a parameter.\<close>

definition downHash :: "(byte list \<Rightarrow> byte list) \<Rightarrow> byte list \<Rightarrow> byte list" where
  "downHash sha1 data = take 20 (sha1 data @ replicate 20 0)"

text \<open>Lines 376-418, entered when the tracker reports the piece complete.\<close>

definition verifyPiece ::
  "(byte list \<Rightarrow> byte list) \<Rightarrow> 'f Torrent \<Rightarrow> (string \<Rightarrow> read_outcome) \<Rightarrow> Piece
     \<Rightarrow> event list \<times> outcome" where
  "verifyPiece sha1 tor rd piece =
     (let info = T_Info tor;
          fds = T_FileDetails tor;
          pieceBegin = pieceBeginOf info piece;
          pieceLength = T_PieceLength tor (uint (Piece_Index piece));
          writeIndex = getWriteFile pieceBegin fds
      in case index_at fds writeIndex of
           Inl p \<Rightarrow> ([], Panicked p)
         | Inr fd0 \<Rightarrow>
             (let fileBegin = i64 (pieceBegin - Begin fd0) in
              case slice_from fds writeIndex of
                Inl p \<Rightarrow> ([], Panicked p)
              | Inr fs \<Rightarrow>
                  (case verifyWalk rd (T_Path tor) fileBegin pieceLength fs of
                     (evs, data, Some p) \<Rightarrow> (evs, Panicked p)
                   | (evs, data, None) \<Rightarrow>
                       (case index_at (Pieces info) (uint (Piece_Index piece)) of
                          Inl p \<Rightarrow> (evs @ [EvConnClose], Panicked p)
                        | Inr expected \<Rightarrow>
                            (evs @ [EvConnClose,
                                    EvSendDownloaded
                                      (if downHash sha1 data = expected then None
                                       else Some errPieceCheckFailed),
                                    EvCloseDownloaded],
                             Returned)))))"

text \<open>\<^verbatim>\<open>handlePiece\<close> (lines 297-420). The result is the events, the tracker state
  and whether the call returned or panicked.\<close>

definition handlePiece ::
  "(byte list \<Rightarrow> byte list) \<Rightarrow> 'ps pieceStates \<Rightarrow> 'f Torrent \<Rightarrow> os_env \<Rightarrow> 'ps \<Rightarrow> Piece
     \<Rightarrow> event list \<times> 'ps \<times> outcome" where
  "handlePiece sha1 ops tor env ps piece =
     (case fileBlocksOf (T_Info tor) (T_FileDetails tor) piece of
        Inl p \<Rightarrow> ([], ps, Panicked p)
      | Inr fileBlocks \<Rightarrow>
          (case writeBlocks (os_write env) (T_Path tor) (Piece_Block piece) 0 fileBlocks of
             (evs, WritePanic p) \<Rightarrow> (evs, ps, Panicked p)
           | (evs, WriteFailed) \<Rightarrow>
               (evs @ [EvSendDownloaded (Some errPieceCheckFailed), EvConnClose], ps, Returned)
           | (evs, WriteOk) \<Rightarrow>
               (let index = uint (Piece_Index piece);
                    begin = uint (Piece_Begin piece);
                    ps' = ps_setBlockDone ops ps index begin;
                    evs1 = evs @ [EvSetBlockDone index begin, EvDequeue]
                in if ps_isPieceDone ops ps' index
                   then (case verifyPiece sha1 tor (os_read env) piece of
                           (evs2, r) \<Rightarrow> (evs1 @ evs2, ps', r))
                   else (evs1, ps', Returned))))"

section \<open>Choke and interest handlers\<close>

text \<open>\<^verbatim>\<open>handleUnchoke\<close> (lines 264-278). The value sent on \<^verbatim>\<open>readyCh\<close> and the
  closing of the channel are events.\<close>

definition handleUnchoke :: "peerConn \<Rightarrow> peerConn \<times> event list" where
  "handleUnchoke pc =
     (let pc1 = pc\<lparr>peerChoking := False\<rparr> in
      if readyEnd pc1 then (pc1, [])
      else (let pc2 = pc1\<lparr>readyEnd := True\<rparr> in
            if amInterested pc2 then (pc2, [EvSendReady True, EvCloseReady])
            else (pc2, [EvSendReady False, EvCloseReady])))"

text \<open>Modelled from the spec: \<^verbatim>\<open>Bitfield.Provide\<close> of the message package, which is
  not among the sources. It gives the piece indices the remote has and that are not
  in the given set of completed pieces. A decoded bit field is the list of the piece
  indices the remote claims to have.\<close>

definition Provide :: "int list \<Rightarrow> int list \<Rightarrow> int list" where
  "Provide bf had = filter (\<lambda>i. i \<notin> set had) bf"

text \<open>\<^verbatim>\<open>getHavePieces\<close> (lines 440-448).\<close>

definition getHavePieces :: "'ps pieceStates \<Rightarrow> 'ps \<Rightarrow> int list \<Rightarrow> int list" where
  "getHavePieces ops ps bf =
     (let had = filter (\<lambda>i. ps_isFinish ops ps i) [0..ps_size ops ps - 1]
      in Provide bf had)"

text \<open>\<^verbatim>\<open>handleBitfield\<close> (lines 280-294), given the decoded bit field. The results
  of the two writes are not looked at.\<close>

definition handleBitfield :: "'ps pieceStates \<Rightarrow> 'ps \<Rightarrow> int list \<Rightarrow> peerConn \<Rightarrow> peerConn \<times> event list" where
  "handleBitfield ops ps bf pc =
     (let pc1 = pc\<lparr>bitfield := Some bf\<rparr>;
          have = getHavePieces ops ps bf
      in if length have > 0
         then (pc1\<lparr>amInterested := True, amChoking := False\<rparr>,
               [EvConnWrite WInterested, EvConnWrite WUnchoke])
         else (pc1, [EvConnClose]))"

section \<open>Handshake\<close>

text \<open>\<^verbatim>\<open>peer.NewHandshake\<close> stores its three arguments.\<close>

definition NewHandshake :: "byte list \<Rightarrow> byte list \<Rightarrow> byte list \<Rightarrow> Handshake" where
  "NewHandshake reserved infoHash peerID =
     \<lparr>Reserved = reserved, InfoHash = infoHash, PeerID = peerID\<rparr>"

text \<open>Modelled from the spec: the decoder of \<^verbatim>\<open>peer.Handshake\<close>, which is not among
  the sources. The 68 bytes are a length byte and a 19-byte protocol string, 8
  reserved bytes, the 20-byte content hash and the 20-byte peer identifier.\<close>

definition Handshake_Decode :: "byte list \<Rightarrow> error + Handshake" where
  "Handshake_Decode buf =
     (if length buf = 68
      then Inr \<lparr>Reserved = take 8 (drop 20 buf),
                InfoHash = take 20 (drop 28 buf),
                PeerID = take 20 (drop 48 buf)\<rparr>
      else Inl (errExternal 0))"

text \<open>\<^verbatim>\<open>handshake\<close> (lines 83-116). \<open>decode\<close> is the decoder, \<open>wres\<close> the result of
  writing the request and \<open>rres\<close> the result of reading the 68 bytes of the
  response.\<close>

definition handshake ::
  "(byte list \<Rightarrow> error + Handshake) \<Rightarrow> byte list \<Rightarrow> byte list \<Rightarrow> error option
     \<Rightarrow> error + byte list \<Rightarrow> peerConn \<Rightarrow> (error + Handshake) \<times> peerConn \<times> event list" where
  "handshake decode infoHash peerID wres rres pc =
     (let handshakeReq = NewHandshake (replicate 8 0) infoHash peerID;
          res = (case wres of
                   Some e \<Rightarrow> Inl e
                 | None \<Rightarrow>
                     (case rres of
                        Inl e \<Rightarrow> Inl e
                      | Inr read \<Rightarrow>
                          (case decode read of
                             Inl e \<Rightarrow> Inl e
                           | Inr handshakeRes \<Rightarrow>
                               if InfoHash handshakeRes \<noteq> InfoHash handshakeReq
                               then Inl errInfoHash
                               else Inr handshakeRes)))
      in case res of
           Inl e \<Rightarrow> (Inl e, pc, [EvConnWrite (WHandshake handshakeReq), EvConnClose])
         | Inr handshakeRes \<Rightarrow>
             (Inr handshakeRes,
              pc\<lparr>amChoking := True, amInterested := False,
                 peerChoking := True, peerInterested := False\<rparr>,
              [EvConnWrite (WHandshake handshakeReq)]))"

section \<open>Keepalive\<close>

definition blockSize :: int where
  "blockSize = 2 * 2 ^ 13"

definition keepaliveTimeout :: int where
  "keepaliveTimeout = 60 * 2"

definition keepaliveData :: "byte list" where
  "keepaliveData = replicate 4 0"

text \<open>One round of the loop of \<^verbatim>\<open>handleKeepalive\<close> (lines 121-132) after the
  sleep: \<open>now\<close> is \<^verbatim>\<open>time.Now().Unix()\<close>, \<open>lastRecive\<close> the value of
  \<^verbatim>\<open>pc.lastReciveTime\<close> read at line 123, \<open>wres\<close> the result of the write. The
  boolean of the result says whether the loop goes on.\<close>

definition keepaliveTick :: "int \<Rightarrow> int \<Rightarrow> error option \<Rightarrow> event list \<times> bool" where
  "keepaliveTick now lastRecive wres =
     (if i64 (now - lastRecive) > keepaliveTimeout then ([EvConnClose], False)
      else (case wres of
              Some e \<Rightarrow> ([EvConnWrite (WRaw keepaliveData), EvConnClose], False)
            | None \<Rightarrow> ([EvConnWrite (WRaw keepaliveData)], True)))"

text \<open>The loop over the rounds observed so far: it stops at the first round that
  closes the socket, and is still running (\<open>True\<close>) when every observed round went
  on.\<close>

fun handleKeepalive :: "(int \<times> int \<times> error option) list \<Rightarrow> event list \<times> bool" where
  "handleKeepalive [] = ([], True)"
| "handleKeepalive ((now, lastRecive, wres) # ticks) =
     (case keepaliveTick now lastRecive wres of
        (evs, True) \<Rightarrow> (case handleKeepalive ticks of (evs', r) \<Rightarrow> (evs @ evs', r))
      | (evs, False) \<Rightarrow> (evs, False))"

section \<open>Requesting the blocks of a piece\<close>

text \<open>The outcome of the \<^verbatim>\<open>select\<close> of lines 233-240: a slot of the block queue, or
  a value received from \<^verbatim>\<open>downloadedCh\<close> or \<^verbatim>\<open>disconnectCh\<close>.\<close>

datatype select_outcome =
    QueueSlot
  | FromDownloaded "error option"
  | FromDisconnect "error option"

fun select_err :: "select_outcome \<Rightarrow> error option" where
  "select_err QueueSlot = None"
| "select_err (FromDownloaded e) = e"
| "select_err (FromDisconnect e) = e"

datatype loop_exit = LoopEnd | LoopReturn error

text \<open>The loop of lines 218-251 over the block indices. \<open>isBlockDone\<close> is the
  tracker's answer for an offset of the piece, \<open>sel\<close> the outcome of the select
  and \<open>wr\<close> the result of writing the request, both for the block index. A failed
  write leaves the loop (\<^verbatim>\<open>break\<close>), an error of the select returns.\<close>

fun requestLoop ::
  "(int \<Rightarrow> bool) \<Rightarrow> (int \<Rightarrow> select_outcome) \<Rightarrow> (int \<Rightarrow> error option) \<Rightarrow> int \<Rightarrow> int \<Rightarrow> int
     \<Rightarrow> int list \<Rightarrow> event list \<times> loop_exit" where
  "requestLoop isBlockDone sel wr index pieceLength blockCount [] = ([], LoopEnd)"
| "requestLoop isBlockDone sel wr index pieceLength blockCount (i # is) =
     (let offset = i64 (blockSize * i) in
      if isBlockDone offset
      then requestLoop isBlockDone sel wr index pieceLength blockCount is
      else (let blockLength = (if i = blockCount - 1
                               then (word_of_int (i64 (pieceLength - offset)) :: uint32)
                               else word_of_int blockSize)
            in case select_err (sel i) of
                 Some e \<Rightarrow> ([EvConnClose], LoopReturn e)
               | None \<Rightarrow>
                   (let req = EvConnWrite (WRequest
                                \<lparr>Request_Index = word_of_int index,
                                 Request_Begin = word_of_int offset,
                                 Request_Length = blockLength\<rparr>)
                    in case wr i of
                         Some e \<Rightarrow> ([req], LoopEnd)
                       | None \<Rightarrow>
                           (case requestLoop isBlockDone sel wr index pieceLength blockCount is of
                              (evs, r) \<Rightarrow> (req # evs, r)))))"

text \<open>\<^verbatim>\<open>downloadPiece\<close> (lines 211-262). \<open>pieceLength\<close> is
  \<^verbatim>\<open>GetPieceLength(index)\<close>, \<open>blockCount\<close> the block count the tracker holds
  for the piece, \<open>fin\<close> the outcome of the final select (lines 252-257).\<close>

definition downloadPiece ::
  "(int \<Rightarrow> bool) \<Rightarrow> (int \<Rightarrow> select_outcome) \<Rightarrow> (int \<Rightarrow> error option) \<Rightarrow> select_outcome
     \<Rightarrow> int \<Rightarrow> int \<Rightarrow> int \<Rightarrow> event list \<times> error option" where
  "downloadPiece isBlockDone sel wr fin pieceLength blockCount index =
     (case requestLoop isBlockDone sel wr index pieceLength blockCount [0..blockCount - 1] of
        (evs, LoopReturn e) \<Rightarrow> (evs, Some e)
      | (evs, LoopEnd) \<Rightarrow>
          (case select_err fin of
             Some e \<Rightarrow> (evs @ [EvConnClose], Some e)
           | None \<Rightarrow> (evs, None)))"

text \<open>The requests among the events.\<close>

fun requestsOf :: "event list \<Rightarrow> Request list" where
  "requestsOf [] = []"
| "requestsOf (EvConnWrite (WRequest r) # evs) = r # requestsOf evs"
| "requestsOf (ev # evs) = requestsOf evs"

section \<open>The receive loop\<close>

text \<open>A framed message as the switch of lines 155-180 tells them apart; a bit field
  and a piece come decoded.\<close>

datatype inbound =
    InKeepalive
  | InChoke
  | InUnchoke
  | InInterested
  | InNotInterested
  | InHave
  | InBitfield "int list"
  | InRequest
  | InPiece Piece
  | InCancel

text \<open>The body of the loop of lines 151-182 for one message: \<open>now\<close> is the time
  stored at line 152, \<open>env\<close> the behaviour of the file system while the message is
  handled.\<close>

definition recvStep ::
  "(byte list \<Rightarrow> byte list) \<Rightarrow> 'ps pieceStates \<Rightarrow> 'f Torrent \<Rightarrow> int \<Rightarrow> os_env \<Rightarrow> inbound
     \<Rightarrow> peerConn \<times> 'ps \<Rightarrow> (peerConn \<times> 'ps) \<times> event list \<times> outcome" where
  "recvStep sha1 ops tor now env m st =
     (let pc = (fst st)\<lparr>lastReciveTime := now\<rparr>; ps = snd st in
      case m of
        InUnchoke \<Rightarrow> (case handleUnchoke pc of (pc', evs) \<Rightarrow> ((pc', ps), evs, Returned))
      | InBitfield bf \<Rightarrow>
          (case handleBitfield ops ps bf pc of (pc', evs) \<Rightarrow> ((pc', ps), evs, Returned))
      | InPiece piece \<Rightarrow>
          (case handlePiece sha1 ops tor env ps piece of (evs, ps', r) \<Rightarrow> ((pc, ps'), evs, r))
      | _ \<Rightarrow> ((pc, ps), [], Returned))"

text \<open>The loop over the messages received; a panic ends it.\<close>

fun recvLoop ::
  "(byte list \<Rightarrow> byte list) \<Rightarrow> 'ps pieceStates \<Rightarrow> 'f Torrent \<Rightarrow> (int \<times> os_env \<times> inbound) list
     \<Rightarrow> peerConn \<times> 'ps \<Rightarrow> (peerConn \<times> 'ps) \<times> event list \<times> outcome" where
  "recvLoop sha1 ops tor [] st = (st, [], Returned)"
| "recvLoop sha1 ops tor ((now, env, m) # ms) st =
     (case recvStep sha1 ops tor now env m st of
        (st', evs, Panicked p) \<Rightarrow> (st', evs, Panicked p)
      | (st', evs, Returned) \<Rightarrow>
          (case recvLoop sha1 ops tor ms st' of (st'', evs', r) \<Rightarrow> (st'', evs @ evs', r)))"

text \<open>The values sent on \<^verbatim>\<open>readyCh\<close> and on \<^verbatim>\<open>downloadedCh\<close> among the events.\<close>

fun readySignals :: "event list \<Rightarrow> bool list" where
  "readySignals [] = []"
| "readySignals (EvSendReady b # evs) = b # readySignals evs"
| "readySignals (ev # evs) = readySignals evs"

fun downloadedSignals :: "event list \<Rightarrow> error option list" where
  "downloadedSignals [] = []"
| "downloadedSignals (EvSendDownloaded e # evs) = e # downloadedSignals evs"
| "downloadedSignals (ev # evs) = downloadedSignals evs"

section \<open>Notions used in the statements\<close>

text \<open>The file ranges are ordered, contiguous and gap-free.\<close>

fun contiguousFiles :: "FileDetail list \<Rightarrow> bool" where
  "contiguousFiles [] = True"
| "contiguousFiles [f] = (Begin f \<le> End f)"
| "contiguousFiles (f # g # fs) = (Begin f \<le> End f \<and> End f = Begin g \<and> contiguousFiles (g # fs))"

text \<open>Each sub-range starts where the previous one ended, the first one at \<open>a\<close>.\<close>

fun chained :: "fileBlock list \<Rightarrow> int \<Rightarrow> bool" where
  "chained [] a = True"
| "chained (fb # fbs) a = (blockBegin fb = a \<and> blockBegin fb \<le> blockEnd fb \<and> chained fbs (blockEnd fb))"

text \<open>No two sub-ranges overlap: an earlier one ends before a later one begins.\<close>

fun non_overlapping :: "fileBlock list \<Rightarrow> bool" where
  "non_overlapping [] = True"
| "non_overlapping (fb # fbs) = (list_all (\<lambda>g. blockEnd fb \<le> blockBegin g) fbs \<and> non_overlapping fbs)"

definition covered :: "fileBlock list \<Rightarrow> int" where
  "covered fbs = sum_list (map (\<lambda>fb. blockEnd fb - blockBegin fb) fbs)"

text \<open>The test of line 425: the range of the file holds the offset.\<close>

definition inRange :: "int \<Rightarrow> FileDetail \<Rightarrow> bool" where
  "inRange p f = (Begin f \<le> p \<and> End f > p)"

text \<open>A round of the keepalive loop after which the loop goes on, and the values
  \<^verbatim>\<open>time.Now().Unix()\<close> can take (seconds since 1970, far from the bounds of
  \<^verbatim>\<open>int64\<close>).\<close>

definition goesOn :: "int \<times> int \<times> error option \<Rightarrow> bool" where
  "goesOn t = (case t of (now, lastRecive, wres) \<Rightarrow> snd (keepaliveTick now lastRecive wres))"

definition unixTime :: "int \<Rightarrow> bool" where
  "unixTime t = (- (2 ^ 62) \<le> t \<and> t < 2 ^ 62)"

text \<open>The request that claim C9 describes for block \<open>i\<close> of a piece: the offset is
  the block size times \<open>i\<close>, the length is the block size, and for the last block
  what remains of the piece.\<close>

definition requestOf :: "int \<Rightarrow> int \<Rightarrow> int \<Rightarrow> int \<Rightarrow> Request" where
  "requestOf index pieceLength blockCount i =
     \<lparr>Request_Index = word_of_int index,
      Request_Begin = word_of_int (blockSize * i),
      Request_Length = (if i = blockCount - 1
                        then word_of_int (pieceLength - blockSize * (blockCount - 1))
                        else 16384)\<rparr>"

text \<open>Modelled from the spec: the block count that the tracker (not among the
  sources) holds for a piece, the piece length divided by the block size and rounded
  up.\<close>

definition blockCountOf :: "int \<Rightarrow> int" where
  "blockCountOf pieceLength = (pieceLength + blockSize - 1) div blockSize"

text \<open>What the code does with one file block: the outcome of the attempt (a negative
  offset makes \<^verbatim>\<open>WriteAt\<close> fail), the bytes of the block it writes, and the events
  of a successful and of a failed attempt.\<close>

definition attempt :: "(nat \<Rightarrow> string \<Rightarrow> io_outcome) \<Rightarrow> string \<Rightarrow> nat \<Rightarrow> fileBlock \<Rightarrow> io_outcome" where
  "attempt wr root k f =
     (if wr k (Join [root, filepath f]) = OpenFileErr then OpenFileErr
      else if wr k (Join [root, filepath f]) = WriteAtErr \<or> fileSeek f < 0 then WriteAtErr
      else IoOk)"

definition bytesOf :: "byte list \<Rightarrow> fileBlock \<Rightarrow> byte list" where
  "bytesOf block f = take (nat (blockEnd f - blockBegin f)) (drop (nat (blockBegin f)) block)"

definition okEvents :: "string \<Rightarrow> byte list \<Rightarrow> fileBlock \<Rightarrow> event list" where
  "okEvents root block f =
     [EvOpenFile (Join [root, filepath f]) True,
      EvWriteAt (Join [root, filepath f]) (bytesOf block f) (fileSeek f) True]"

definition failEvents :: "string \<Rightarrow> byte list \<Rightarrow> fileBlock \<Rightarrow> io_outcome \<Rightarrow> event list" where
  "failEvents root block f out =
     (if out = OpenFileErr then [EvOpenFile (Join [root, filepath f]) False]
      else [EvOpenFile (Join [root, filepath f]) True,
            EvWriteAt (Join [root, filepath f]) (bytesOf block f) (fileSeek f) False])"

text \<open>The slices of the block that the file blocks name are within the block.\<close>

definition sliceable :: "byte list \<Rightarrow> fileBlock list \<Rightarrow> bool" where
  "sliceable block fbs =
     list_all (\<lambda>f. 0 \<le> blockBegin f \<and> blockBegin f \<le> blockEnd f
                  \<and> blockEnd f \<le> int (length block)) fbs"

section \<open>Concrete torrents, trackers and file systems\<close>

text \<open>Two files of 10 and 20 bytes, and a block of 20 bytes at torrent offset 5.\<close>

definition ex_fds :: "FileDetail list" where
  "ex_fds = [\<lparr>Path = [''file0''], Begin = 0, End = 10\<rparr>,
             \<lparr>Path = [''file1''], Begin = 10, End = 30\<rparr>]"

definition ex_info :: "unit Info" where
  "ex_info = \<lparr>Name = ''name'', PieceLength = 32, Files = [(), ()], Pieces = []\<rparr>"

definition ex_piece :: Piece where
  "ex_piece = \<lparr>Piece_Index = 0, Piece_Begin = 5, Piece_Block = replicate 20 7\<rparr>"

text \<open>A block at torrent offset 32, past the end of the two files, and the torrent
  of the two files.\<close>

definition ex_outside :: Piece where
  "ex_outside = \<lparr>Piece_Index = 1, Piece_Begin = 0, Piece_Block = replicate 4 7\<rparr>"

definition ex_tor :: "unit Torrent" where
  "ex_tor = \<lparr>T_Path = ''root'', T_Info = ex_info, T_FileDetails = ex_fds,
             T_PieceLength = (\<lambda>i. 32)\<rparr>"

text \<open>Modelled from the spec: a piece-state tracker (the tracker of the repository
  is not among the sources), used for the concrete runs below. Its state is the
  block count of each piece and the list of the blocks that are done, a block being
  named by its piece index and its offset; marking a block done twice changes
  nothing, and a piece is done when every one of its blocks is.\<close>

type_synonym tracker = "int list \<times> (int \<times> int) list"

definition pieceDone :: "tracker \<Rightarrow> int \<Rightarrow> bool" where
  "pieceDone t i =
     list_all (\<lambda>k. (i, blockSize * k) \<in> set (snd t)) [0..fst t ! nat i - 1]"

definition trackerOps :: "tracker pieceStates" where
  "trackerOps =
     \<lparr>ps_size = (\<lambda>t. int (length (fst t))),
      ps_isFinish = pieceDone,
      ps_isBlockDone = (\<lambda>t i off. (i, off) \<in> set (snd t)),
      ps_setBlockDone = (\<lambda>t i off. (fst t, if (i, off) \<in> set (snd t) then snd t
                                            else (i, off) # snd t)),
      ps_isPieceDone = pieceDone,
      ps_blockCount = (\<lambda>t i. fst t ! nat i)\<rparr>"

text \<open>A file system on which every write succeeds and no file can be opened for
  reading, a connection as \<^verbatim>\<open>ready\<close> leaves it before the first message (the
  flags of a successful handshake, \<open>readyEnd\<close> reset at line 144), and a tracker of
  one piece of one block with nothing downloaded.\<close>

definition ex_env :: os_env where
  "ex_env = \<lparr>os_write = (\<lambda>k name. IoOk), os_read = (\<lambda>name. OpenErr)\<rparr>"

definition ex_pc :: peerConn where
  "ex_pc = \<lparr>amChoking = True, amInterested = False, peerChoking = True,
            peerInterested = False, lastReciveTime = 0, bitfield = None, readyEnd = False\<rparr>"

definition ex_tracker :: tracker where
  "ex_tracker = ([1], [])"

text \<open>Messages of a run: a bit field naming piece 0, then unchoke, choke, unchoke.\<close>

definition ex_msgs_pre :: "(int \<times> os_env \<times> inbound) list" where
  "ex_msgs_pre = [(1, ex_env, InBitfield [0])]"

definition ex_msgs_post :: "(int \<times> os_env \<times> inbound) list" where
  "ex_msgs_post = [(3, ex_env, InChoke), (4, ex_env, InUnchoke)]"

text \<open>The tracker of one piece of one block with that block done.\<close>

definition ex_tracker_done :: tracker where
  "ex_tracker_done = ([1], [(0, 0)])"

text \<open>A content hash, a peer identifier, and a 68-byte handshake response that
  carries a given content hash.\<close>

definition ex_hash :: "byte list" where
  "ex_hash = replicate 20 1"

definition ex_peerID :: "byte list" where
  "ex_peerID = replicate 20 2"

definition ex_response :: "byte list \<Rightarrow> byte list" where
  "ex_response hash = 19 # replicate 19 66 @ replicate 8 0 @ hash @ replicate 20 3"

text \<open>A piece whose second block is already done.\<close>

definition ex_isBlockDone :: "int \<Rightarrow> bool" where
  "ex_isBlockDone offset = (offset = 16384)"

text \<open>A torrent of the two files with one piece of 20 bytes made of one block, the
  expected hash being that of the payload or not, with the identity as hash
  function; a file system on which the two files hold the first 10 bytes each; and
  one on which the second write of a call fails.\<close>

definition ver_piece :: Piece where
  "ver_piece = \<lparr>Piece_Index = 0, Piece_Begin = 0, Piece_Block = replicate 20 7\<rparr>"

definition ver_tor :: "byte list \<Rightarrow> unit Torrent" where
  "ver_tor expected =
     \<lparr>T_Path = ''root'',
      T_Info = \<lparr>Name = ''name'', PieceLength = 20, Files = [(), ()], Pieces = [expected]\<rparr>,
      T_FileDetails = ex_fds,
      T_PieceLength = (\<lambda>i. 20)\<rparr>"

definition ver_read :: "string \<Rightarrow> read_outcome" where
  "ver_read name =
     (if name = ''root/file0'' \<or> name = ''root/file1'' then FileData (replicate 10 7)
      else OpenErr)"

definition ver_env :: os_env where
  "ver_env = \<lparr>os_write = (\<lambda>k name. IoOk), os_read = ver_read\<rparr>"

definition fail_env :: os_env where
  "fail_env = \<lparr>os_write = (\<lambda>k name. if k = 1 then WriteAtErr else IoOk), os_read = ver_read\<rparr>"

text \<open>A torrent of one file in a directory, and a file system on which the directory
  can be opened but not read.\<close>

definition nested_tor :: "unit Torrent" where
  "nested_tor =
     \<lparr>T_Path = ''root'',
      T_Info = \<lparr>Name = ''name'', PieceLength = 20, Files = [()], Pieces = [replicate 20 7]\<rparr>,
      T_FileDetails = [\<lparr>Path = [''dir'', ''file''], Begin = 0, End = 20\<rparr>],
      T_PieceLength = (\<lambda>i. 20)\<rparr>"

definition nested_env :: os_env where
  "nested_env =
     \<lparr>os_write = (\<lambda>k name. IoOk),
      os_read = (\<lambda>name. if name = ''root/dir/file'' then FileData (replicate 20 7)
                         else if name = ''root/dir'' then CopyErr else OpenErr)\<rparr>"

section \<open>The block is tiled by its file blocks\<close>

lemma i64_id: "- (2 ^ 63) \<le> x \<Longrightarrow> x < 2 ^ 63 \<Longrightarrow> i64 x = x"
  by (simp add: i64_def)

lemma contiguous_Begin_le_End: "contiguousFiles (f # fs) \<Longrightarrow> Begin f \<le> End f"
  by (cases fs) auto

lemma contiguous_tail: "contiguousFiles (f # fs) \<Longrightarrow> contiguousFiles fs"
  by (cases fs) auto

lemma contiguous_End_le_last: "contiguousFiles (f # fs) \<Longrightarrow> End f \<le> End (last (f # fs))"
proof (induction fs arbitrary: f)
  case Nil
  then show ?case by simp
next
  case (Cons g gs)
  from Cons.prems have "End f = Begin g" "Begin g \<le> End g" "contiguousFiles (g # gs)"
    by (auto dest: contiguous_Begin_le_End contiguous_tail)
  with Cons.IH [of g] show ?case by simp
qed

lemma walk_chained:
  assumes "contiguousFiles (f # fs)"
    and "Begin f \<le> b" and "b \<le> End f" and "0 \<le> b"
    and "End (last (f # fs)) < 2 ^ 63"
    and "0 \<le> s" and "s \<le> L" and "L < 2 ^ 63"
    and "b + (L - s) \<le> End (last (f # fs))"
  shows "chained (walkFiles L b s (f # fs)) s
       \<and> blockEnd (last (walkFiles L b s (f # fs))) = L
       \<and> walkFiles L b s (f # fs) \<noteq> []"
  using assms
proof (induction fs arbitrary: f b s)
  case Nil
  then have fw: "i64 (End f - b) = End f - b" and bw: "i64 (L - s) = L - s"
    by (auto intro!: i64_id)
  from Nil have "L - s \<le> End f - b" by simp
  with fw bw Nil show ?case by (simp add: Let_def i64_id)
next
  case (Cons g gs)
  have le: "End f \<le> End (last (f # g # gs))"
    using Cons.prems(1) by (rule contiguous_End_le_last)
  with Cons.prems have fw: "i64 (End f - b) = End f - b" and bw: "i64 (L - s) = L - s"
    by (auto intro!: i64_id)
  show ?case
  proof (cases "L - s \<le> End f - b")
    case True
    with fw bw Cons.prems show ?thesis by (simp add: Let_def i64_id)
  next
    case False
    then have lt: "End f - b < L - s" by simp
    have s': "i64 (s + (End f - b)) = s + (End f - b)"
      using lt Cons.prems by (auto intro!: i64_id)
    have cg: "contiguousFiles (g # gs)" and eg: "End f = Begin g"
      using Cons.prems(1) by auto
    have bg: "Begin g \<le> End g" using cg by (rule contiguous_Begin_le_End)
    have IH: "chained (walkFiles L (End f) (s + (End f - b)) (g # gs)) (s + (End f - b))
       \<and> blockEnd (last (walkFiles L (End f) (s + (End f - b)) (g # gs))) = L
       \<and> walkFiles L (End f) (s + (End f - b)) (g # gs) \<noteq> []"
    proof (rule Cons.IH)
      show "contiguousFiles (g # gs)" by (rule cg)
      show "Begin g \<le> End f" using eg by simp
      show "End f \<le> End g" using eg bg by simp
      show "0 \<le> End f" using Cons.prems by simp
      show "End (last (g # gs)) < 2 ^ 63" using Cons.prems by simp
      show "0 \<le> s + (End f - b)" using Cons.prems by simp
      show "s + (End f - b) \<le> L" using lt by simp
      show "L < 2 ^ 63" using Cons.prems by simp
      show "End f + (L - (s + (End f - b))) \<le> End (last (g # gs))" using Cons.prems by simp
    qed
    have w: "walkFiles L b s (f # g # gs) =
        \<lparr>filepath = Join (Path f), fileSeek = i64 (b - Begin f), blockBegin = s,
          blockEnd = s + (End f - b)\<rparr> # walkFiles L (End f) (s + (End f - b)) (g # gs)"
      using lt fw bw s' by (simp add: Let_def)
    show ?thesis
      unfolding w using IH Cons.prems(3) by simp
  qed
qed


lemma contiguous_drop: "contiguousFiles fds \<Longrightarrow> contiguousFiles (drop k fds)"
proof (induction k arbitrary: fds)
  case 0
  then show ?case by simp
next
  case (Suc k)
  show ?case
  proof (cases fds)
    case Nil
    then show ?thesis by simp
  next
    case (Cons f fs)
    with Suc.prems have "contiguousFiles fs" by (auto dest: contiguous_tail)
    with Suc.IH Cons show ?thesis by simp
  qed
qed

lemma getWriteFile_from_none:
  "\<forall>f\<in>set fds. \<not> (Begin f \<le> p \<and> p < End f) \<Longrightarrow> getWriteFile_from i p fds = - 1"
  by (induction fds arbitrary: i) auto

lemma getWriteFile_from_some:
  "\<exists>f\<in>set fds. Begin f \<le> p \<and> p < End f \<Longrightarrow>
   \<exists>k<length fds. getWriteFile_from i p fds = i + int k
      \<and> Begin (fds ! k) \<le> p \<and> p < End (fds ! k)
      \<and> (\<forall>j<k. \<not> (Begin (fds ! j) \<le> p \<and> p < End (fds ! j)))"
proof (induction fds arbitrary: i)
  case Nil
  then show ?case by simp
next
  case (Cons f fds)
  show ?case
  proof (cases "Begin f \<le> p \<and> p < End f")
    case True
    then have "getWriteFile_from i p (f # fds) = i + int 0
      \<and> Begin ((f # fds) ! 0) \<le> p \<and> p < End ((f # fds) ! 0)
      \<and> (\<forall>j<(0::nat). \<not> (Begin ((f # fds) ! j) \<le> p \<and> p < End ((f # fds) ! j)))"
      by simp
    then show ?thesis by (intro exI [of _ 0]) simp
  next
    case False
    with Cons.prems have "\<exists>f\<in>set fds. Begin f \<le> p \<and> p < End f" by auto
    from Cons.IH [OF this, of "i + 1"] obtain k where k: "k < length fds"
      "getWriteFile_from (i + 1) p fds = i + 1 + int k"
      "Begin (fds ! k) \<le> p" "p < End (fds ! k)"
      "\<forall>j<k. \<not> (Begin (fds ! j) \<le> p \<and> p < End (fds ! j))"
      by blast
    have "\<forall>j<Suc k. \<not> (Begin ((f # fds) ! j) \<le> p \<and> p < End ((f # fds) ! j))"
    proof (intro allI impI)
      fix j assume "j < Suc k"
      then show "\<not> (Begin ((f # fds) ! j) \<le> p \<and> p < End ((f # fds) ! j))"
        using False k(5) by (cases j) auto
    qed
    with k False show ?thesis
      by (intro exI [of _ "Suc k"]) auto
  qed
qed

lemma chained_lower: "chained fbs a \<Longrightarrow> \<forall>g\<in>set fbs. a \<le> blockBegin g \<and> blockBegin g \<le> blockEnd g"
proof (induction fbs arbitrary: a)
  case Nil
  then show ?case by simp
next
  case (Cons fb fbs)
  then have "chained fbs (blockEnd fb)" and ab: "blockBegin fb = a" "a \<le> blockEnd fb" by auto
  from Cons.IH [OF this(1)] ab show ?case by auto
qed

lemma chained_non_overlapping: "chained fbs a \<Longrightarrow> non_overlapping fbs"
proof (induction fbs arbitrary: a)
  case Nil
  then show ?case by simp
next
  case (Cons fb fbs)
  then have c: "chained fbs (blockEnd fb)" by simp
  from chained_lower [OF c] have "list_all (\<lambda>g. blockEnd fb \<le> blockBegin g) fbs"
    by (simp add: list_all_iff)
  with Cons.IH [OF c] show ?case by simp
qed

lemma chained_covered: "chained fbs a \<Longrightarrow> fbs \<noteq> [] \<Longrightarrow> covered fbs = blockEnd (last fbs) - a"
proof (induction fbs arbitrary: a)
  case Nil
  then show ?case by simp
next
  case (Cons fb fbs)
  then have c: "chained fbs (blockEnd fb)" and ab: "blockBegin fb = a" by auto
  show ?case
  proof (cases fbs)
    case Nil
    with ab show ?thesis by (simp add: covered_def)
  next
    case (Cons g gs)
    with Cons.IH [OF c] \<open>fbs = g # gs\<close> have "covered fbs = blockEnd (last fbs) - blockEnd fb" by simp
    with ab Cons show ?thesis by (simp add: covered_def)
  qed
qed

text \<open>Claim C1. For every received block, the file blocks computed by
  \<^verbatim>\<open>handlePiece\<close> split the byte range \<open>[0, len)\<close> of the block into sub-ranges
  that are contiguous (each one begins where the previous one ended, the first at 0),
  do not overlap and add up to exactly \<open>len\<close>, in the single-file and in the
  multi-file layout, whenever the file ranges are ordered, contiguous and gap-free
  (their offsets being non-negative \<^verbatim>\<open>int64\<close> values), the block starts inside
  one of them and ends within the last.\<close>

theorem C1_file_blocks_tile_block:
  assumes files: "contiguousFiles fds"
    and range: "list_all (\<lambda>f. 0 \<le> Begin f \<and> End f < 2 ^ 63) fds"
    and start: "list_ex (\<lambda>f. Begin f \<le> blockBeginOf info piece \<and> blockBeginOf info piece < End f) fds"
    and fits: "blockBeginOf info piece + int (length (Piece_Block piece)) \<le> End (last fds)"
  shows "\<exists>fbs. fileBlocksOf info fds piece = Inr fbs
           \<and> fbs \<noteq> []
           \<and> chained fbs 0
           \<and> non_overlapping fbs
           \<and> blockEnd (last fbs) = int (length (Piece_Block piece))
           \<and> covered fbs = int (length (Piece_Block piece))"
proof -
  define b where "b = blockBeginOf info piece"
  define L where "L = int (length (Piece_Block piece))"
  have L0: "0 \<le> L" by (simp add: L_def)
  have range': "\<forall>f\<in>set fds. 0 \<le> Begin f \<and> End f < 2 ^ 63"
    using range by (simp add: list_all_iff)
  have start': "\<exists>f\<in>set fds. Begin f \<le> b \<and> b < End f"
    using start by (simp add: list_ex_iff b_def)
  have core: "\<exists>fbs. fileBlocksAt info fds b L = Inr fbs \<and> fbs \<noteq> [] \<and> chained fbs 0
      \<and> blockEnd (last fbs) = L"
  proof (cases "length (Files info) = 0")
    case True
    then show ?thesis using L0 by (simp add: fileBlocksAt_def)
  next
    case False
    from getWriteFile_from_some [OF start', of 0]
    obtain k where k: "k < length fds" "getWriteFile b fds = int k"
      "Begin (fds ! k) \<le> b" "b < End (fds ! k)"
      by (auto simp: getWriteFile_def)
    have dr: "drop k fds = fds ! k # drop (Suc k) fds"
      using k(1) by (simp add: Cons_nth_drop_Suc)
    have lst: "last (fds ! k # drop (Suc k) fds) = last fds"
      using k(1) dr by (metis last_drop)
    have mem: "fds ! k \<in> set fds" and ne: "fds \<noteq> []" using k(1) by auto
    have lmem: "last fds \<in> set fds" using ne by simp
    have b0: "0 \<le> b" using range' mem k(3) by force
    have e63: "End (last fds) < 2 ^ 63" using range' lmem by blast
    have L63: "L < 2 ^ 63" using fits [folded b_def L_def] b0 e63 by linarith
    have w: "chained (walkFiles L b 0 (fds ! k # drop (Suc k) fds)) 0
       \<and> blockEnd (last (walkFiles L b 0 (fds ! k # drop (Suc k) fds))) = L
       \<and> walkFiles L b 0 (fds ! k # drop (Suc k) fds) \<noteq> []"
    proof (rule walk_chained)
      show "contiguousFiles (fds ! k # drop (Suc k) fds)"
        using contiguous_drop [OF files, of k] dr by simp
      show "Begin (fds ! k) \<le> b" by (rule k(3))
      show "b \<le> End (fds ! k)" using k(4) by simp
      show "0 \<le> b" by (rule b0)
      show "End (last (fds ! k # drop (Suc k) fds)) < 2 ^ 63" using lst e63 by simp
      show "(0::int) \<le> 0" by simp
      show "0 \<le> L" by (rule L0)
      show "L < 2 ^ 63" by (rule L63)
      show "b + (L - 0) \<le> End (last (fds ! k # drop (Suc k) fds))"
        using lst fits [folded b_def L_def] by simp
    qed
    have "fileBlocksAt info fds b L = Inr (walkFiles L b 0 (fds ! k # drop (Suc k) fds))"
      using False k(1,2) dr by (simp add: fileBlocksAt_def slice_from_def)
    with w show ?thesis by simp
  qed
  then obtain fbs where fbs: "fileBlocksAt info fds b L = Inr fbs" "fbs \<noteq> []" "chained fbs 0"
    "blockEnd (last fbs) = L" by blast
  from chained_covered [OF fbs(3,2)] fbs(4) have "covered fbs = L" by simp
  with fbs chained_non_overlapping [OF fbs(3)] show ?thesis
    unfolding fileBlocksOf_def b_def [symmetric] L_def [symmetric] by blast
qed

lemma ex_blockBegin: "blockBeginOf ex_info ex_piece = 5"
  by (simp add: blockBeginOf_def pieceBeginOf_def ex_info_def ex_piece_def i64_def)

theorem C1_file_blocks_tile_block_witness:
  "contiguousFiles ex_fds
   \<and> list_all (\<lambda>f. 0 \<le> Begin f \<and> End f < 2 ^ 63) ex_fds
   \<and> list_ex (\<lambda>f. Begin f \<le> blockBeginOf ex_info ex_piece \<and> blockBeginOf ex_info ex_piece < End f) ex_fds
   \<and> blockBeginOf ex_info ex_piece + int (length (Piece_Block ex_piece)) \<le> End (last ex_fds)
   \<and> (\<exists>fbs. fileBlocksOf ex_info ex_fds ex_piece = Inr fbs
           \<and> fbs \<noteq> []
           \<and> chained fbs 0
           \<and> non_overlapping fbs
           \<and> blockEnd (last fbs) = int (length (Piece_Block ex_piece))
           \<and> covered fbs = int (length (Piece_Block ex_piece)))"
proof -
  have h1: "contiguousFiles ex_fds" by (simp add: ex_fds_def)
  have h2: "list_all (\<lambda>f. 0 \<le> Begin f \<and> End f < 2 ^ 63) ex_fds" by (simp add: ex_fds_def)
  have h3: "list_ex (\<lambda>f. Begin f \<le> blockBeginOf ex_info ex_piece
      \<and> blockBeginOf ex_info ex_piece < End f) ex_fds"
    by (simp add: ex_blockBegin ex_fds_def)
  have h4: "blockBeginOf ex_info ex_piece + int (length (Piece_Block ex_piece)) \<le> End (last ex_fds)"
    by (simp add: ex_blockBegin) (simp add: ex_fds_def ex_piece_def)
  from C1_file_blocks_tile_block [OF h1 h2 h3 h4] h1 h2 h3 h4 show ?thesis by blast
qed

section \<open>The two-file scenario\<close>

text \<open>The scenario of claim C2 as the claim states it, with the second file block
  taking bytes \<open>[5, 25)\<close> of the block, does not hold: the block has 20 bytes, the
  code gives the second file block the bytes \<open>[5, 20)\<close>, and a slice
  \<open>[5:25]\<close> of the block would be out of range.\<close>

theorem C2_two_file_block_counterexample:
  "fileBlocksOf ex_info ex_fds ex_piece \<noteq>
     Inr [\<lparr>filepath = ''file0'', fileSeek = 5, blockBegin = 0, blockEnd = 5\<rparr>,
          \<lparr>filepath = ''file1'', fileSeek = 0, blockBegin = 5, blockEnd = 25\<rparr>]
   \<and> slice_range (Piece_Block ex_piece) 5 25 = Inl SliceBoundsOutOfRange"
  by (simp add: fileBlocksOf_def fileBlocksAt_def blockBeginOf_def pieceBeginOf_def
      getWriteFile_def slice_from_def slice_range_def Join_def i64_def Let_def
      ex_fds_def ex_info_def ex_piece_def)

text \<open>Claim C2, amended. With two files of 10 and 20 bytes (ranges \<open>[0, 10)\<close> and
  \<open>[10, 30)\<close>), a block of 20 bytes at torrent offset 5 is mapped to exactly two
  file blocks: the first file at offset 5 with bytes \<open>[0, 5)\<close> of the block, the
  second file at offset 0 with bytes \<open>[5, 20)\<close> of the block.\<close>

theorem C2_two_file_block:
  assumes multi: "Files info \<noteq> []"
    and at5: "blockBeginOf info piece = 5"
    and len20: "length (Piece_Block piece) = 20"
  shows "fileBlocksOf info [\<lparr>Path = p0, Begin = 0, End = 10\<rparr>, \<lparr>Path = p1, Begin = 10, End = 30\<rparr>] piece
           = Inr [\<lparr>filepath = Join p0, fileSeek = 5, blockBegin = 0, blockEnd = 5\<rparr>,
                  \<lparr>filepath = Join p1, fileSeek = 0, blockBegin = 5, blockEnd = 20\<rparr>]
         \<and> slice_range (Piece_Block piece) 0 5 = Inr (take 5 (Piece_Block piece))
         \<and> slice_range (Piece_Block piece) 5 20 = Inr (drop 5 (Piece_Block piece))"
proof -
  have "fileBlocksOf info [\<lparr>Path = p0, Begin = 0, End = 10\<rparr>, \<lparr>Path = p1, Begin = 10, End = 30\<rparr>] piece
           = Inr [\<lparr>filepath = Join p0, fileSeek = 5, blockBegin = 0, blockEnd = 5\<rparr>,
                  \<lparr>filepath = Join p1, fileSeek = 0, blockBegin = 5, blockEnd = 20\<rparr>]"
    using multi by (simp add: fileBlocksOf_def fileBlocksAt_def at5 len20 getWriteFile_def
        slice_from_def i64_def Let_def)
  moreover have "slice_range (Piece_Block piece) 0 5 = Inr (take 5 (Piece_Block piece))"
    by (simp add: slice_range_def len20)
  moreover have "slice_range (Piece_Block piece) 5 20 = Inr (drop 5 (Piece_Block piece))"
    by (simp add: slice_range_def len20)
  ultimately show ?thesis by simp
qed

theorem C2_two_file_block_witness:
  "Files ex_info \<noteq> [] \<and> blockBeginOf ex_info ex_piece = 5 \<and> length (Piece_Block ex_piece) = 20
   \<and> fileBlocksOf ex_info ex_fds ex_piece
       = Inr [\<lparr>filepath = ''file0'', fileSeek = 5, blockBegin = 0, blockEnd = 5\<rparr>,
              \<lparr>filepath = ''file1'', fileSeek = 0, blockBegin = 5, blockEnd = 20\<rparr>]"
proof -
  have h1: "Files ex_info \<noteq> []" by (simp add: ex_info_def)
  have h2: "blockBeginOf ex_info ex_piece = 5"
    by (simp add: blockBeginOf_def pieceBeginOf_def ex_info_def ex_piece_def i64_def)
  have h3: "length (Piece_Block ex_piece) = 20" by (simp add: ex_piece_def)
  from C2_two_file_block [OF h1 h2 h3, of "[''file0'']" "[''file1'']"] h1 h2 h3
  show ?thesis by (simp add: ex_fds_def Join_def)
qed

section \<open>The file of an offset, and slicing with it\<close>

text \<open>Claim C10. \<^verbatim>\<open>getWriteFile\<close> returns the least index of a file whose range
  holds the offset when there is one, and \<open>-1\<close> when there is none. The result is
  used unchecked: the slice \<^verbatim>\<open>fds[writeIndex:]\<close> of the multi-file mapping and the
  index \<^verbatim>\<open>fds[writeIndex]\<close> of the verification are in range when the offset lies
  in some file, and panic when it lies in none. So the multi-file mapping yields
  file blocks if and only if the start of the block lies in some file, and
  \<^verbatim>\<open>handlePiece\<close> panics at the slice when it lies in none.\<close>

theorem C10_getWriteFile_and_slicing:
  "(list_ex (inRange p) fds \<longrightarrow>
      (\<exists>k<length fds. getWriteFile p fds = int k \<and> inRange p (fds ! k)
         \<and> (\<forall>j<k. \<not> inRange p (fds ! j))
         \<and> slice_from fds (getWriteFile p fds) = Inr (drop k fds)
         \<and> index_at fds (getWriteFile p fds) = Inr (fds ! k)))
   \<and> (\<not> list_ex (inRange p) fds \<longrightarrow>
        getWriteFile p fds = - 1
        \<and> slice_from fds (getWriteFile p fds) = Inl SliceBoundsOutOfRange
        \<and> index_at fds (getWriteFile p fds) = Inl IndexOutOfRange)
   \<and> (Files info \<noteq> [] \<longrightarrow>
        ((\<exists>fbs. fileBlocksOf info fds piece = Inr fbs)
           \<longleftrightarrow> list_ex (inRange (blockBeginOf info piece)) fds)
        \<and> (\<not> list_ex (inRange (blockBeginOf info piece)) fds \<longrightarrow>
             fileBlocksOf info fds piece = Inl SliceBoundsOutOfRange))
   \<and> (\<not> list_ex (inRange (pieceBeginOf (T_Info tor) piece)) (T_FileDetails tor) \<longrightarrow>
        verifyPiece sha1 tor rd piece = ([], Panicked IndexOutOfRange))
   \<and> (Files (T_Info tor) \<noteq> [] \<longrightarrow>
        \<not> list_ex (inRange (blockBeginOf (T_Info tor) piece)) (T_FileDetails tor) \<longrightarrow>
        handlePiece sha1 ops tor env ps piece = ([], ps, Panicked SliceBoundsOutOfRange))"
proof -
  have A: "\<exists>k<length fds. getWriteFile q fds = int k \<and> inRange q (fds ! k)
         \<and> (\<forall>j<k. \<not> inRange q (fds ! j))
         \<and> slice_from fds (getWriteFile q fds) = Inr (drop k fds)
         \<and> index_at fds (getWriteFile q fds) = Inr (fds ! k)"
    if "list_ex (inRange q) fds" for q and fds :: "FileDetail list"
  proof -
    from that have "\<exists>f\<in>set fds. Begin f \<le> q \<and> q < End f"
      by (auto simp: list_ex_iff inRange_def)
    from getWriteFile_from_some [OF this, of 0] obtain k where k: "k < length fds"
      "getWriteFile q fds = int k" "Begin (fds ! k) \<le> q" "q < End (fds ! k)"
      "\<forall>j<k. \<not> (Begin (fds ! j) \<le> q \<and> q < End (fds ! j))"
      by (auto simp: getWriteFile_def)
    then show ?thesis
      by (intro exI [of _ k]) (auto simp: inRange_def slice_from_def index_at_def)
  qed
  have B: "getWriteFile q fds = - 1
        \<and> slice_from fds (getWriteFile q fds) = Inl SliceBoundsOutOfRange
        \<and> index_at fds (getWriteFile q fds) = Inl IndexOutOfRange"
    if "\<not> list_ex (inRange q) fds" for q and fds :: "FileDetail list"
  proof -
    from that have "\<forall>f\<in>set fds. \<not> (Begin f \<le> q \<and> q < End f)"
      by (auto simp: list_ex_iff inRange_def)
    from getWriteFile_from_none [OF this, of 0] show ?thesis
      by (simp add: getWriteFile_def slice_from_def index_at_def)
  qed
  have C1: "\<exists>fbs. fileBlocksOf info fds piece = Inr fbs"
    if "Files info \<noteq> []" "list_ex (inRange (blockBeginOf info piece)) fds"
    using A [OF that(2)] that(1) by (auto simp: fileBlocksOf_def fileBlocksAt_def)
  have C2: "fileBlocksOf info fds piece = Inl SliceBoundsOutOfRange"
    if "Files info \<noteq> []" "\<not> list_ex (inRange (blockBeginOf info piece)) fds"
    using B [OF that(2)] that(1)
    by (simp add: fileBlocksOf_def fileBlocksAt_def slice_from_def)
  have D: "verifyPiece sha1 tor rd piece = ([], Panicked IndexOutOfRange)"
    if "\<not> list_ex (inRange (pieceBeginOf (T_Info tor) piece)) (T_FileDetails tor)"
    using B [OF that] by (simp add: verifyPiece_def Let_def index_at_def)
  have E: "handlePiece sha1 ops tor env ps piece = ([], ps, Panicked SliceBoundsOutOfRange)"
    if "Files (T_Info tor) \<noteq> []"
      "\<not> list_ex (inRange (blockBeginOf (T_Info tor) piece)) (T_FileDetails tor)"
    using B [OF that(2)] that(1)
    by (simp add: handlePiece_def fileBlocksOf_def fileBlocksAt_def slice_from_def)
  have C3: "list_ex (inRange (blockBeginOf info piece)) fds"
    if "Files info \<noteq> []" "fileBlocksOf info fds piece = Inr fbs" for fbs
  proof (rule ccontr)
    assume "\<not> list_ex (inRange (blockBeginOf info piece)) fds"
    from C2 [OF that(1) this] that(2) show False by simp
  qed
  show ?thesis
  proof (intro conjI impI iffI)
    assume "list_ex (inRange p) fds"
    then show "\<exists>k<length fds. getWriteFile p fds = int k \<and> inRange p (fds ! k)
         \<and> (\<forall>j<k. \<not> inRange p (fds ! j))
         \<and> slice_from fds (getWriteFile p fds) = Inr (drop k fds)
         \<and> index_at fds (getWriteFile p fds) = Inr (fds ! k)" by (rule A)
  next
    assume "\<not> list_ex (inRange p) fds"
    from B [OF this] show "getWriteFile p fds = - 1"
      and "slice_from fds (getWriteFile p fds) = Inl SliceBoundsOutOfRange"
      and "index_at fds (getWriteFile p fds) = Inl IndexOutOfRange" by blast+
  next
    assume "Files info \<noteq> []" "\<exists>fbs. fileBlocksOf info fds piece = Inr fbs"
    then show "list_ex (inRange (blockBeginOf info piece)) fds" using C3 by blast
  next
    assume "Files info \<noteq> []" "list_ex (inRange (blockBeginOf info piece)) fds"
    then show "\<exists>fbs. fileBlocksOf info fds piece = Inr fbs" by (rule C1)
  next
    assume "Files info \<noteq> []" "\<not> list_ex (inRange (blockBeginOf info piece)) fds"
    then show "fileBlocksOf info fds piece = Inl SliceBoundsOutOfRange" by (rule C2)
  next
    assume "\<not> list_ex (inRange (pieceBeginOf (T_Info tor) piece)) (T_FileDetails tor)"
    then show "verifyPiece sha1 tor rd piece = ([], Panicked IndexOutOfRange)" by (rule D)
  next
    assume "Files (T_Info tor) \<noteq> []"
      "\<not> list_ex (inRange (blockBeginOf (T_Info tor) piece)) (T_FileDetails tor)"
    then show "handlePiece sha1 ops tor env ps piece = ([], ps, Panicked SliceBoundsOutOfRange)"
      by (rule E)
  qed
qed

theorem C10_getWriteFile_and_slicing_witness:
  "list_ex (inRange 15) ex_fds
   \<and> getWriteFile 15 ex_fds = 1
   \<and> slice_from ex_fds (getWriteFile 15 ex_fds) = Inr (drop 1 ex_fds)
   \<and> \<not> list_ex (inRange 30) ex_fds
   \<and> getWriteFile 30 ex_fds = - 1
   \<and> slice_from ex_fds (getWriteFile 30 ex_fds) = Inl SliceBoundsOutOfRange
   \<and> Files ex_info \<noteq> []
   \<and> fileBlocksOf ex_info ex_fds ex_outside = Inl SliceBoundsOutOfRange
   \<and> (\<exists>fbs. fileBlocksOf ex_info ex_fds ex_piece = Inr fbs)
   \<and> verifyPiece (\<lambda>data. data) ex_tor (\<lambda>name. OpenErr) ex_outside = ([], Panicked IndexOutOfRange)
   \<and> handlePiece (\<lambda>data. data) trackerOps ex_tor ex_env ex_tracker ex_outside
       = ([], ex_tracker, Panicked SliceBoundsOutOfRange)"
proof -
  have in15: "list_ex (inRange 15) ex_fds" by (simp add: ex_fds_def inRange_def)
  have out30: "\<not> list_ex (inRange 30) ex_fds" by (simp add: ex_fds_def inRange_def)
  have multi: "Files ex_info \<noteq> []" by (simp add: ex_info_def)
  have b32: "blockBeginOf ex_info ex_outside = 32" and p32: "pieceBeginOf ex_info ex_outside = 32"
    by (simp_all add: blockBeginOf_def pieceBeginOf_def ex_info_def ex_outside_def i64_def)
  have b5: "blockBeginOf ex_info ex_piece = 5"
    by (simp add: blockBeginOf_def pieceBeginOf_def ex_info_def ex_piece_def i64_def)
  have outb: "\<not> list_ex (inRange (blockBeginOf ex_info ex_outside)) ex_fds"
    by (simp add: b32 ex_fds_def inRange_def)
  have inb: "list_ex (inRange (blockBeginOf ex_info ex_piece)) ex_fds"
    by (simp add: b5 ex_fds_def inRange_def)
  have outp: "\<not> list_ex (inRange (pieceBeginOf (T_Info ex_tor) ex_outside)) (T_FileDetails ex_tor)"
    by (simp add: ex_tor_def p32) (simp add: ex_fds_def inRange_def)
  note t15 = C10_getWriteFile_and_slicing [of 15 ex_fds ex_info ex_outside ex_tor "\<lambda>data. data"
      "\<lambda>name. OpenErr" trackerOps ex_env ex_tracker]
  note t30 = C10_getWriteFile_and_slicing [of 30 ex_fds ex_info ex_piece ex_tor "\<lambda>data. data"
      "\<lambda>name. OpenErr" trackerOps ex_env ex_tracker]
  note found = t15 [THEN conjunct1]
  note none = t30 [THEN conjunct2, THEN conjunct1]
  note map_out = t15 [THEN conjunct2, THEN conjunct2, THEN conjunct1]
  note map_in = t30 [THEN conjunct2, THEN conjunct2, THEN conjunct1]
  note verify = t15 [THEN conjunct2, THEN conjunct2, THEN conjunct2, THEN conjunct1]
  note handle = t15 [THEN conjunct2, THEN conjunct2, THEN conjunct2, THEN conjunct2]
  from found in15 obtain k where k: "k < length ex_fds" "getWriteFile 15 ex_fds = int k"
    "inRange 15 (ex_fds ! k)" "slice_from ex_fds (getWriteFile 15 ex_fds) = Inr (drop k ex_fds)"
    by blast
  have "k = 1"
  proof -
    from k(1) have "k = 0 \<or> k = 1" by (auto simp: ex_fds_def)
    with k(3) show ?thesis by (auto simp: ex_fds_def inRange_def)
  qed
  with k have c1: "getWriteFile 15 ex_fds = 1"
    and c2: "slice_from ex_fds (getWriteFile 15 ex_fds) = Inr (drop 1 ex_fds)" by simp_all
  from none out30 have c3: "getWriteFile 30 ex_fds = - 1"
    and c4: "slice_from ex_fds (getWriteFile 30 ex_fds) = Inl SliceBoundsOutOfRange" by blast+
  from map_out multi outb have c5: "fileBlocksOf ex_info ex_fds ex_outside = Inl SliceBoundsOutOfRange"
    by blast
  from map_in multi inb have c6: "\<exists>fbs. fileBlocksOf ex_info ex_fds ex_piece = Inr fbs" by blast
  from verify outp have c7: "verifyPiece (\<lambda>data. data) ex_tor (\<lambda>name. OpenErr) ex_outside
      = ([], Panicked IndexOutOfRange)" by blast
  have multi': "Files (T_Info ex_tor) \<noteq> []" by (simp add: ex_tor_def ex_info_def)
  have outb': "\<not> list_ex (inRange (blockBeginOf (T_Info ex_tor) ex_outside)) (T_FileDetails ex_tor)"
    using outb by (simp add: ex_tor_def)
  from handle multi' outb'
  have c8: "handlePiece (\<lambda>data. data) trackerOps ex_tor ex_env ex_tracker ex_outside
       = ([], ex_tracker, Panicked SliceBoundsOutOfRange)" by blast
  show ?thesis
    using in15 out30 multi c1 c2 c3 c4 c5 c6 c7 c8 by (intro conjI)
qed

section \<open>The readiness signal\<close>

lemma readySignals_append: "readySignals (xs @ ys) = readySignals xs @ readySignals ys"
  by (induction xs rule: readySignals.induct) auto

lemma readySignals_writeBlocks:
  "writeBlocks wr root block k fbs = (evs, r) \<Longrightarrow> readySignals evs = []"
proof (induction fbs arbitrary: k evs r)
  case Nil
  then show ?case by simp
next
  case (Cons f fbs)
  from Cons.prems show ?case
    by (auto simp: Let_def split: sum.splits prod.splits if_splits dest: Cons.IH)
qed

lemma readySignals_verifyWalk:
  "verifyWalk rd root fb pl fds = (evs, data, p) \<Longrightarrow> readySignals evs = []"
proof (induction fds arbitrary: fb pl evs data p)
  case Nil
  then show ?case by simp
next
  case (Cons fd fds)
  from Cons.prems show ?case
    by (auto simp: Let_def readySignals_append
        split: sum.splits prod.splits read_outcome.splits if_splits dest: Cons.IH)
qed

lemma readySignals_verifyPiece:
  "verifyPiece sha1 tor rd piece = (evs, r) \<Longrightarrow> readySignals evs = []"
  by (auto simp: verifyPiece_def Let_def readySignals_append
      split: sum.splits prod.splits option.splits dest: readySignals_verifyWalk)

lemma readySignals_handlePiece:
  "handlePiece sha1 ops tor env ps piece = (evs, ps', r) \<Longrightarrow> readySignals evs = []"
  by (auto simp: handlePiece_def Let_def readySignals_append
      split: sum.splits prod.splits write_result.splits if_splits
      dest: readySignals_writeBlocks readySignals_verifyPiece)

lemma handleUnchoke_events:
  "snd (handleUnchoke pc) = (if readyEnd pc then [] else [EvSendReady (amInterested pc), EvCloseReady])"
  by (simp add: handleUnchoke_def Let_def)

lemma handleUnchoke_state:
  "readyEnd (fst (handleUnchoke pc))" "\<not> peerChoking (fst (handleUnchoke pc))"
  "amInterested (fst (handleUnchoke pc)) = amInterested pc"
  by (simp_all add: handleUnchoke_def Let_def)

lemma recvStep_unchoke:
  "recvStep sha1 ops tor now env InUnchoke st =
     ((fst (handleUnchoke ((fst st)\<lparr>lastReciveTime := now\<rparr>)), snd st),
      snd (handleUnchoke ((fst st)\<lparr>lastReciveTime := now\<rparr>)), Returned)"
  by (simp add: recvStep_def Let_def split: prod.splits)

lemma recvStep_other:
  assumes "m \<noteq> InUnchoke" and "recvStep sha1 ops tor now env m st = (st', evs, r)"
  shows "readySignals evs = []" and "readyEnd (fst st') = readyEnd (fst st)"
    and "peerChoking (fst st') = peerChoking (fst st)"
proof -
  have "readySignals evs = [] \<and> readyEnd (fst st') = readyEnd (fst st)
      \<and> peerChoking (fst st') = peerChoking (fst st)"
  proof (cases m)
    case (InBitfield bf)
    with assms(2) show ?thesis
      by (auto simp: recvStep_def handleBitfield_def Let_def split: if_splits)
  next
    case (InPiece piece)
    with assms(2) show ?thesis
      by (auto simp: recvStep_def Let_def split: prod.splits dest: readySignals_handlePiece)
  next
    case InUnchoke
    with assms(1) show ?thesis by simp
  qed (use assms(2) in \<open>auto simp: recvStep_def Let_def\<close>)
  then show "readySignals evs = []" and "readyEnd (fst st') = readyEnd (fst st)"
    and "peerChoking (fst st') = peerChoking (fst st)" by simp_all
qed

lemma recvStep_ready:
  assumes "readyEnd (fst st)" and "recvStep sha1 ops tor now env m st = (st', evs, r)"
  shows "readySignals evs = [] \<and> readyEnd (fst st')"
proof (cases "m = InUnchoke")
  case True
  with assms show ?thesis
    by (auto simp: recvStep_unchoke handleUnchoke_events handleUnchoke_state)
next
  case False
  from recvStep_other [OF False assms(2)] assms(1) show ?thesis by simp
qed

lemma recvStep_signals_le:
  assumes "recvStep sha1 ops tor now env m st = (st', evs, r)"
  shows "length (readySignals evs) \<le> 1 \<and> (readySignals evs \<noteq> [] \<longrightarrow> readyEnd (fst st'))"
proof (cases "m = InUnchoke")
  case True
  with assms show ?thesis
    by (auto simp: recvStep_unchoke handleUnchoke_events handleUnchoke_state)
next
  case False
  from recvStep_other [OF False assms] show ?thesis by simp
qed

lemma recvStep_peerChoking:
  assumes "\<not> peerChoking (fst st)" and "recvStep sha1 ops tor now env m st = (st', evs, r)"
  shows "\<not> peerChoking (fst st')"
proof (cases "m = InUnchoke")
  case True
  with assms show ?thesis by (auto simp: recvStep_unchoke handleUnchoke_state)
next
  case False
  from recvStep_other [OF False assms(2)] assms(1) show ?thesis by simp
qed

lemma recvLoop_ready:
  "readyEnd (fst st) \<Longrightarrow> recvLoop sha1 ops tor ms st = (st', evs, r)
     \<Longrightarrow> readySignals evs = [] \<and> readyEnd (fst st')"
proof (induction ms arbitrary: st st' evs r)
  case Nil
  then show ?case by simp
next
  case (Cons x ms)
  obtain now env m where x: "x = (now, env, m)" by (cases x)
  obtain st1 evs1 r1 where s: "recvStep sha1 ops tor now env m st = (st1, evs1, r1)"
    by (cases "recvStep sha1 ops tor now env m st")
  from recvStep_ready [OF Cons.prems(1) s] have a: "readySignals evs1 = []" "readyEnd (fst st1)"
    by simp_all
  show ?case
  proof (cases r1)
    case (Panicked p)
    with Cons.prems(2) x s a show ?thesis by auto
  next
    case Returned
    obtain st2 evs2 r2 where l: "recvLoop sha1 ops tor ms st1 = (st2, evs2, r2)"
      by (cases "recvLoop sha1 ops tor ms st1")
    from Cons.IH [OF a(2) l] Cons.prems(2) x s a Returned l show ?thesis
      by (auto simp: readySignals_append)
  qed
qed

lemma recvLoop_no_unchoke:
  "list_all (\<lambda>(now, env, m). m \<noteq> InUnchoke) ms \<Longrightarrow> recvLoop sha1 ops tor ms st = (st', evs, r)
     \<Longrightarrow> readySignals evs = [] \<and> readyEnd (fst st') = readyEnd (fst st)"
proof (induction ms arbitrary: st st' evs r)
  case Nil
  then show ?case by simp
next
  case (Cons x ms)
  obtain now env m where x: "x = (now, env, m)" by (cases x)
  with Cons.prems(1) have m: "m \<noteq> InUnchoke"
    and rest: "list_all (\<lambda>(now, env, m). m \<noteq> InUnchoke) ms" by simp_all
  obtain st1 evs1 r1 where s: "recvStep sha1 ops tor now env m st = (st1, evs1, r1)"
    by (cases "recvStep sha1 ops tor now env m st")
  note a = recvStep_other [OF m s]
  show ?case
  proof (cases r1)
    case (Panicked p)
    with Cons.prems(2) x s a show ?thesis by auto
  next
    case Returned
    obtain st2 evs2 r2 where l: "recvLoop sha1 ops tor ms st1 = (st2, evs2, r2)"
      by (cases "recvLoop sha1 ops tor ms st1")
    from Cons.IH [OF rest l] Cons.prems(2) x s a Returned l show ?thesis
      by (auto simp: readySignals_append)
  qed
qed

lemma recvLoop_signals_le:
  "recvLoop sha1 ops tor ms st = (st', evs, r) \<Longrightarrow> length (readySignals evs) \<le> 1"
proof (induction ms arbitrary: st st' evs r)
  case Nil
  then show ?case by simp
next
  case (Cons x ms)
  obtain now env m where x: "x = (now, env, m)" by (cases x)
  obtain st1 evs1 r1 where s: "recvStep sha1 ops tor now env m st = (st1, evs1, r1)"
    by (cases "recvStep sha1 ops tor now env m st")
  from recvStep_signals_le [OF s] have a: "length (readySignals evs1) \<le> 1"
    "readySignals evs1 \<noteq> [] \<longrightarrow> readyEnd (fst st1)" by simp_all
  show ?case
  proof (cases r1)
    case (Panicked p)
    with Cons.prems x s a show ?thesis by auto
  next
    case Returned
    obtain st2 evs2 r2 where l: "recvLoop sha1 ops tor ms st1 = (st2, evs2, r2)"
      by (cases "recvLoop sha1 ops tor ms st1")
    have e: "evs = evs1 @ evs2" using Cons.prems x s Returned l by simp
    show ?thesis
    proof (cases "readySignals evs1 = []")
      case True
      with Cons.IH [OF l] e show ?thesis by (simp add: readySignals_append)
    next
      case False
      with a(2) have "readyEnd (fst st1)" by simp
      from recvLoop_ready [OF this l] a(1) e show ?thesis by (simp add: readySignals_append)
    qed
  qed
qed

lemma recvLoop_peerChoking:
  "\<not> peerChoking (fst st) \<Longrightarrow> recvLoop sha1 ops tor ms st = (st', evs, r)
     \<Longrightarrow> \<not> peerChoking (fst st')"
proof (induction ms arbitrary: st st' evs r)
  case Nil
  then show ?case by simp
next
  case (Cons x ms)
  obtain now env m where x: "x = (now, env, m)" by (cases x)
  obtain st1 evs1 r1 where s: "recvStep sha1 ops tor now env m st = (st1, evs1, r1)"
    by (cases "recvStep sha1 ops tor now env m st")
  from recvStep_peerChoking [OF Cons.prems(1) s] have a: "\<not> peerChoking (fst st1)" .
  show ?case
  proof (cases r1)
    case (Panicked p)
    with Cons.prems(2) x s a show ?thesis by auto
  next
    case Returned
    obtain st2 evs2 r2 where l: "recvLoop sha1 ops tor ms st1 = (st2, evs2, r2)"
      by (cases "recvLoop sha1 ops tor ms st1")
    from Cons.IH [OF a l] Cons.prems(2) x s Returned l show ?thesis by auto
  qed
qed

lemma recvLoop_append:
  "recvLoop sha1 ops tor xs st = (st1, evs1, Returned) \<Longrightarrow>
   recvLoop sha1 ops tor (xs @ ys) st =
     (case recvLoop sha1 ops tor ys st1 of (st2, evs2, r) \<Rightarrow> (st2, evs1 @ evs2, r))"
proof (induction xs arbitrary: st st1 evs1)
  case Nil
  then show ?case by (auto split: prod.splits)
next
  case (Cons x xs)
  obtain now env m where x: "x = (now, env, m)" by (cases x)
  obtain sa ea ra where s: "recvStep sha1 ops tor now env m st = (sa, ea, ra)"
    by (cases "recvStep sha1 ops tor now env m st")
  obtain sb eb rb where l: "recvLoop sha1 ops tor xs sa = (sb, eb, rb)"
    by (cases "recvLoop sha1 ops tor xs sa")
  from Cons.prems x s l have ra: "ra = Returned" and rb: "rb = Returned"
    and sb: "sb = st1" and ev: "evs1 = ea @ eb"
    by (auto split: outcome.splits)
  from Cons.IH [OF l [unfolded rb sb]] x s ra ev show ?case
    by (auto split: prod.splits)
qed

text \<open>Claim C5. Every call of \<^verbatim>\<open>handleUnchoke\<close> sets \<open>peerChoking\<close> to false and
  leaves \<open>readyEnd\<close> set; it sends a readiness value, namely the value of
  \<open>amInterested\<close>, and closes the channel only when \<open>readyEnd\<close> was not set. So
  whatever messages the receive loop handles, at most one readiness value is sent;
  and when \<open>readyEnd\<close> is not set at the start, the first unchoke message sends
  exactly the value \<open>amInterested\<close> has at that moment, the later ones send
  nothing, and \<open>peerChoking\<close> is false from then on.\<close>

theorem C5_ready_signal_once:
  "\<not> peerChoking (fst (handleUnchoke pc))
   \<and> readyEnd (fst (handleUnchoke pc))
   \<and> snd (handleUnchoke pc)
       = (if readyEnd pc then [] else [EvSendReady (amInterested pc), EvCloseReady])
   \<and> length (readySignals (fst (snd (recvLoop sha1 ops tor ms st)))) \<le> 1
   \<and> (\<not> readyEnd (fst st) \<and> list_all (\<lambda>(now, env, m). m \<noteq> InUnchoke) pre
        \<and> recvLoop sha1 ops tor pre st = (st1, evs1, Returned) \<longrightarrow>
        readySignals (fst (snd (recvLoop sha1 ops tor (pre @ (now, env, InUnchoke) # post) st)))
          = [amInterested (fst st1)]
        \<and> \<not> peerChoking (fst (fst (recvLoop sha1 ops tor (pre @ (now, env, InUnchoke) # post) st))))"
proof -
  have le: "length (readySignals (fst (snd (recvLoop sha1 ops tor ms st)))) \<le> 1"
  proof -
    obtain st' evs r where l: "recvLoop sha1 ops tor ms st = (st', evs, r)"
      by (cases "recvLoop sha1 ops tor ms st")
    from recvLoop_signals_le [OF l] l show ?thesis by simp
  qed
  have first: "readySignals (fst (snd (recvLoop sha1 ops tor (pre @ (now, env, InUnchoke) # post) st)))
          = [amInterested (fst st1)]
        \<and> \<not> peerChoking (fst (fst (recvLoop sha1 ops tor (pre @ (now, env, InUnchoke) # post) st)))"
    if nr: "\<not> readyEnd (fst st)" and nu: "list_all (\<lambda>(now, env, m). m \<noteq> InUnchoke) pre"
      and pre: "recvLoop sha1 ops tor pre st = (st1, evs1, Returned)"
  proof -
    from recvLoop_no_unchoke [OF nu pre] nr have e1: "readySignals evs1 = []"
      and r1: "\<not> readyEnd (fst st1)" by simp_all
    define pc1 where "pc1 = (fst st1)\<lparr>lastReciveTime := now\<rparr>"
    define st2 where "st2 = (fst (handleUnchoke pc1), snd st1)"
    have step: "recvStep sha1 ops tor now env InUnchoke st1 = (st2, snd (handleUnchoke pc1), Returned)"
      by (simp add: recvStep_unchoke pc1_def st2_def)
    have eu: "snd (handleUnchoke pc1) = [EvSendReady (amInterested (fst st1)), EvCloseReady]"
      using r1 by (simp add: handleUnchoke_events pc1_def)
    have r2: "readyEnd (fst st2)" and c2: "\<not> peerChoking (fst st2)"
      by (simp_all add: st2_def handleUnchoke_state)
    obtain st3 evs3 r3 where l3: "recvLoop sha1 ops tor post st2 = (st3, evs3, r3)"
      by (cases "recvLoop sha1 ops tor post st2")
    from recvLoop_ready [OF r2 l3] have e3: "readySignals evs3 = []" by simp
    from recvLoop_peerChoking [OF c2 l3] have c3: "\<not> peerChoking (fst st3)" .
    have tail: "recvLoop sha1 ops tor ((now, env, InUnchoke) # post) st1
        = (st3, snd (handleUnchoke pc1) @ evs3, r3)"
      using step l3 by simp
    have "recvLoop sha1 ops tor (pre @ (now, env, InUnchoke) # post) st
        = (st3, evs1 @ snd (handleUnchoke pc1) @ evs3, r3)"
      using recvLoop_append [OF pre, of "(now, env, InUnchoke) # post"] tail by simp
    with e1 eu e3 c3 show ?thesis by (simp add: readySignals_append)
  qed
  show ?thesis
    using le first by (simp add: handleUnchoke_events handleUnchoke_state)
qed

lemma ex_pre_run:
  "recvLoop (\<lambda>d. d) trackerOps ex_tor ex_msgs_pre (ex_pc, ex_tracker)
     = ((ex_pc\<lparr>lastReciveTime := 1, bitfield := Some [0], amInterested := True,
               amChoking := False\<rparr>, ex_tracker),
        [EvConnWrite WInterested, EvConnWrite WUnchoke], Returned)"
  by (simp add: ex_msgs_pre_def recvStep_def handleBitfield_def getHavePieces_def Provide_def
      trackerOps_def pieceDone_def ex_tracker_def ex_pc_def Let_def)


theorem C5_ready_signal_once_witness:
  "\<not> readyEnd (fst (ex_pc, ex_tracker))
   \<and> list_all (\<lambda>(now, env, m). m \<noteq> InUnchoke) ex_msgs_pre
   \<and> recvLoop (\<lambda>d. d) trackerOps ex_tor ex_msgs_pre (ex_pc, ex_tracker)
       = ((ex_pc\<lparr>lastReciveTime := 1, bitfield := Some [0], amInterested := True,
                 amChoking := False\<rparr>, ex_tracker),
          [EvConnWrite WInterested, EvConnWrite WUnchoke], Returned)
   \<and> readySignals (fst (snd (recvLoop (\<lambda>d. d) trackerOps ex_tor
         (ex_msgs_pre @ (2, ex_env, InUnchoke) # ex_msgs_post) (ex_pc, ex_tracker)))) = [True]
   \<and> \<not> peerChoking (fst (fst (recvLoop (\<lambda>d. d) trackerOps ex_tor
         (ex_msgs_pre @ (2, ex_env, InUnchoke) # ex_msgs_post) (ex_pc, ex_tracker))))"
proof -
  have h1: "\<not> readyEnd (fst (ex_pc, ex_tracker))" by (simp add: ex_pc_def)
  have h2: "list_all (\<lambda>(now, env, m). m \<noteq> InUnchoke) ex_msgs_pre"
    by (simp add: ex_msgs_pre_def)
  note h3 = ex_pre_run
  from C5_ready_signal_once [of ex_pc "\<lambda>d. d" trackerOps ex_tor "[]" "(ex_pc, ex_tracker)"
      ex_msgs_pre _ _ 2 ex_env ex_msgs_post] h1 h2 h3
  have "readySignals (fst (snd (recvLoop (\<lambda>d. d) trackerOps ex_tor
         (ex_msgs_pre @ (2, ex_env, InUnchoke) # ex_msgs_post) (ex_pc, ex_tracker))))
        = [amInterested (fst (ex_pc\<lparr>lastReciveTime := 1, bitfield := Some [0],
              amInterested := True, amChoking := False\<rparr>, ex_tracker))]
     \<and> \<not> peerChoking (fst (fst (recvLoop (\<lambda>d. d) trackerOps ex_tor
         (ex_msgs_pre @ (2, ex_env, InUnchoke) # ex_msgs_post) (ex_pc, ex_tracker))))"
    by blast
  with h1 h2 h3 show ?thesis by simp
qed

section \<open>Keepalive rounds\<close>

lemma keepaliveTick_goesOn:
  "goesOn (now, lastRecive, wres) \<Longrightarrow>
     keepaliveTick now lastRecive wres = ([EvConnWrite (WRaw keepaliveData)], True)"
  by (auto simp: goesOn_def keepaliveTick_def split: if_splits option.splits)

lemma handleKeepalive_goesOn:
  "list_all goesOn ticks \<Longrightarrow>
     handleKeepalive ticks = (replicate (length ticks) (EvConnWrite (WRaw keepaliveData)), True)"
proof (induction ticks)
  case Nil
  then show ?case by simp
next
  case (Cons t ticks)
  obtain now lastRecive wres where t: "t = (now, lastRecive, wres)" by (cases t)
  from Cons.prems t have "goesOn (now, lastRecive, wres)" and rest: "list_all goesOn ticks"
    by simp_all
  from keepaliveTick_goesOn [OF this(1)] Cons.IH [OF rest] t show ?case by simp
qed

lemma handleKeepalive_stops:
  assumes "list_all goesOn pre" and "\<not> goesOn (now, lastRecive, wres)"
  shows "handleKeepalive (pre @ (now, lastRecive, wres) # post) =
     (replicate (length pre) (EvConnWrite (WRaw keepaliveData))
        @ fst (keepaliveTick now lastRecive wres), False)"
  using assms(1)
proof (induction pre)
  case Nil
  from assms(2) show ?case
    by (cases "keepaliveTick now lastRecive wres") (auto simp: goesOn_def)
next
  case (Cons t pre)
  obtain n l w where t: "t = (n, l, w)" by (cases t)
  from Cons.prems t have "goesOn (n, l, w)" and rest: "list_all goesOn pre" by simp_all
  from keepaliveTick_goesOn [OF this(1)] Cons.IH [OF rest] t show ?case by simp
qed

text \<open>Claim C6. In a round of the keepalive loop, the socket is closed and the loop
  stops without sending when more than 120 seconds (\<open>keepaliveTimeout\<close>) have
  passed since the last received message; otherwise the four zero bytes of a
  keepalive message are written, and a failed write closes the socket and stops the
  loop too. The loop goes on exactly when neither happens, and it ends at the first
  round that closes the socket.\<close>

theorem C6_keepalive_tick:
  assumes "unixTime now" and "unixTime lastRecive"
  shows "(now - lastRecive > 120 \<longrightarrow>
            keepaliveTick now lastRecive wres = ([EvConnClose], False))
       \<and> (now - lastRecive \<le> 120 \<and> wres = None \<longrightarrow>
            keepaliveTick now lastRecive wres = ([EvConnWrite (WRaw [0, 0, 0, 0])], True))
       \<and> (now - lastRecive \<le> 120 \<and> wres = Some e \<longrightarrow>
            keepaliveTick now lastRecive wres
              = ([EvConnWrite (WRaw [0, 0, 0, 0]), EvConnClose], False))
       \<and> (goesOn (now, lastRecive, wres) \<longleftrightarrow> now - lastRecive \<le> 120 \<and> wres = None)
       \<and> (list_all goesOn pre \<and> \<not> goesOn (now, lastRecive, wres) \<longrightarrow>
            handleKeepalive (pre @ (now, lastRecive, wres) # post)
              = (replicate (length pre) (EvConnWrite (WRaw [0, 0, 0, 0]))
                   @ fst (keepaliveTick now lastRecive wres), False))
       \<and> (list_all goesOn pre \<longrightarrow>
            handleKeepalive pre = (replicate (length pre) (EvConnWrite (WRaw [0, 0, 0, 0])), True))"
proof -
  have d: "i64 (now - lastRecive) = now - lastRecive"
    using assms by (intro i64_id) (simp_all add: unixTime_def)
  have k: "keepaliveData = [0, 0, 0, 0]" by (simp add: keepaliveData_def numeral_eq_Suc)
  have a: "now - lastRecive > 120 \<Longrightarrow> keepaliveTick now lastRecive wres = ([EvConnClose], False)"
    by (simp add: keepaliveTick_def d keepaliveTimeout_def)
  have b: "now - lastRecive \<le> 120 \<Longrightarrow> wres = None \<Longrightarrow>
      keepaliveTick now lastRecive wres = ([EvConnWrite (WRaw [0, 0, 0, 0])], True)"
    by (simp add: keepaliveTick_def d keepaliveTimeout_def k)
  have c: "now - lastRecive \<le> 120 \<Longrightarrow> wres = Some e \<Longrightarrow>
      keepaliveTick now lastRecive wres = ([EvConnWrite (WRaw [0, 0, 0, 0]), EvConnClose], False)"
    by (simp add: keepaliveTick_def d keepaliveTimeout_def k)
  have g: "goesOn (now, lastRecive, wres) \<longleftrightarrow> now - lastRecive \<le> 120 \<and> wres = None"
    by (auto simp: goesOn_def keepaliveTick_def d keepaliveTimeout_def split: option.splits)
  show ?thesis
    using a b c g handleKeepalive_stops [of pre now lastRecive wres post]
      handleKeepalive_goesOn [of pre]
    by (simp add: k)
qed

theorem C6_keepalive_tick_witness:
  "unixTime 1121 \<and> unixTime 1000 \<and> unixTime 1120
   \<and> keepaliveTick 1121 1000 None = ([EvConnClose], False)
   \<and> keepaliveTick 1120 1000 None = ([EvConnWrite (WRaw [0, 0, 0, 0])], True)
   \<and> keepaliveTick 1120 1000 (Some (errExternal 1))
        = ([EvConnWrite (WRaw [0, 0, 0, 0]), EvConnClose], False)
   \<and> list_all goesOn [(120, 0, None), (240, 130, None)]
   \<and> handleKeepalive ([(120, 0, None), (240, 130, None)] @ (1121, 1000, None) # [(1241, 1240, None)])
        = ([EvConnWrite (WRaw [0, 0, 0, 0]), EvConnWrite (WRaw [0, 0, 0, 0]), EvConnClose], False)"
proof -
  have u: "unixTime 1121" "unixTime 1000" "unixTime 1120" by (simp_all add: unixTime_def)
  have l: "list_all goesOn [(120, 0, None), (240, 130, None)]"
    by (simp add: goesOn_def keepaliveTick_def keepaliveTimeout_def i64_def)
  note t1 = C6_keepalive_tick [OF u(1) u(2), of None "errExternal 1"
      "[(120, 0, None), (240, 130, None)]" "[(1241, 1240, None)]"]
  note t2 = C6_keepalive_tick [OF u(3) u(2), of None "errExternal 1" "[]" "[]"]
  note t3 = C6_keepalive_tick [OF u(3) u(2), of "Some (errExternal 1)" "errExternal 1" "[]" "[]"]
  from t1 have c1: "keepaliveTick 1121 1000 None = ([EvConnClose], False)" by simp
  from t2 have c2: "keepaliveTick 1120 1000 None = ([EvConnWrite (WRaw [0, 0, 0, 0])], True)"
    by simp
  from t3 have c3: "keepaliveTick 1120 1000 (Some (errExternal 1))
        = ([EvConnWrite (WRaw [0, 0, 0, 0]), EvConnClose], False)" by simp
  from t1 have ng: "\<not> goesOn (1121, 1000, None)" by simp
  from t1 l ng c1 have c4: "handleKeepalive ([(120, 0, None), (240, 130, None)] @ (1121, 1000, None) # [(1241, 1240, None)])
        = ([EvConnWrite (WRaw [0, 0, 0, 0]), EvConnWrite (WRaw [0, 0, 0, 0]), EvConnClose], False)"
    by (simp add: numeral_eq_Suc)
  from u l c1 c2 c3 c4 show ?thesis by blast
qed

section \<open>The bit field\<close>

lemma set_getHavePieces:
  "set (getHavePieces ops ps bf)
     = {i \<in> set bf. \<not> (0 \<le> i \<and> i < ps_size ops ps \<and> ps_isFinish ops ps i)}"
  by (auto simp: getHavePieces_def Provide_def Let_def)

text \<open>Claim C7. The pieces found by \<^verbatim>\<open>getHavePieces\<close> are those of the bit field
  that the tracker has not finished. When there is one, \<^verbatim>\<open>handleBitfield\<close> writes
  Interested and then Unchoke and sets \<open>amInterested\<close> to true and \<open>amChoking\<close>
  to false; when there is none, it closes the connection, writes nothing and leaves
  the four choke and interest flags as they were.\<close>

theorem C7_handleBitfield:
  "set (getHavePieces ops ps bf)
     = {i \<in> set bf. \<not> (0 \<le> i \<and> i < ps_size ops ps \<and> ps_isFinish ops ps i)}
   \<and> (getHavePieces ops ps bf \<noteq> [] \<longrightarrow>
        handleBitfield ops ps bf pc
          = (pc\<lparr>bitfield := Some bf, amInterested := True, amChoking := False\<rparr>,
             [EvConnWrite WInterested, EvConnWrite WUnchoke]))
   \<and> (getHavePieces ops ps bf = [] \<longrightarrow>
        handleBitfield ops ps bf pc = (pc\<lparr>bitfield := Some bf\<rparr>, [EvConnClose])
        \<and> amChoking (fst (handleBitfield ops ps bf pc)) = amChoking pc
        \<and> amInterested (fst (handleBitfield ops ps bf pc)) = amInterested pc
        \<and> peerChoking (fst (handleBitfield ops ps bf pc)) = peerChoking pc
        \<and> peerInterested (fst (handleBitfield ops ps bf pc)) = peerInterested pc)"
  by (simp add: set_getHavePieces) (simp add: handleBitfield_def Let_def)

theorem C7_handleBitfield_witness:
  "getHavePieces trackerOps ex_tracker [0] \<noteq> []
   \<and> handleBitfield trackerOps ex_tracker [0] ex_pc
        = (ex_pc\<lparr>bitfield := Some [0], amInterested := True, amChoking := False\<rparr>,
           [EvConnWrite WInterested, EvConnWrite WUnchoke])
   \<and> getHavePieces trackerOps ex_tracker_done [0] = []
   \<and> handleBitfield trackerOps ex_tracker_done [0] ex_pc
        = (ex_pc\<lparr>bitfield := Some [0]\<rparr>, [EvConnClose])"
proof -
  have h1: "getHavePieces trackerOps ex_tracker [0] \<noteq> []"
    by (simp add: getHavePieces_def Provide_def trackerOps_def pieceDone_def ex_tracker_def
        blockSize_def)
  have h2: "getHavePieces trackerOps ex_tracker_done [0] = []"
    by (simp add: getHavePieces_def Provide_def trackerOps_def pieceDone_def ex_tracker_done_def
        blockSize_def)
  from C7_handleBitfield [of trackerOps ex_tracker "[0]" ex_pc] h1
  have c1: "handleBitfield trackerOps ex_tracker [0] ex_pc
        = (ex_pc\<lparr>bitfield := Some [0], amInterested := True, amChoking := False\<rparr>,
           [EvConnWrite WInterested, EvConnWrite WUnchoke])" by blast
  from C7_handleBitfield [of trackerOps ex_tracker_done "[0]" ex_pc] h2
  have c2: "handleBitfield trackerOps ex_tracker_done [0] ex_pc
        = (ex_pc\<lparr>bitfield := Some [0]\<rparr>, [EvConnClose])" by blast
  from h1 h2 c1 c2 show ?thesis by blast
qed

section \<open>The handshake\<close>

text \<open>Claim C8. Whenever the decoded response carries a content hash other than the
  one sent, whatever its other fields, \<^verbatim>\<open>handshake\<close> fails with the error of line
  102 and closes the connection; with the 68-byte layout of the response this is so
  for every 68 bytes whose hash field differs. A failed handshake leaves the
  connection record as it was; a successful one has a matching hash and sets the
  flags to choking, not interested, choked and not interested.\<close>

theorem C8_handshake:
  "(wres = None \<and> rres = Inr read \<and> decode read = Inr h \<and> InfoHash h \<noteq> infoHash \<longrightarrow>
       handshake decode infoHash peerID wres rres pc
         = (Inl errInfoHash, pc,
            [EvConnWrite (WHandshake (NewHandshake (replicate 8 0) infoHash peerID)), EvConnClose]))
   \<and> (length read = 68 \<and> take 20 (drop 28 read) \<noteq> infoHash \<longrightarrow>
       handshake Handshake_Decode infoHash peerID None (Inr read) pc
         = (Inl errInfoHash, pc,
            [EvConnWrite (WHandshake (NewHandshake (replicate 8 0) infoHash peerID)), EvConnClose]))
   \<and> (fst (handshake decode infoHash peerID wres rres pc) = Inl e \<longrightarrow>
       fst (snd (handshake decode infoHash peerID wres rres pc)) = pc
       \<and> snd (snd (handshake decode infoHash peerID wres rres pc))
           = [EvConnWrite (WHandshake (NewHandshake (replicate 8 0) infoHash peerID)), EvConnClose])
   \<and> (fst (handshake decode infoHash peerID wres rres pc) = Inr h' \<longrightarrow>
       wres = None \<and> (\<exists>read'. rres = Inr read' \<and> decode read' = Inr h')
       \<and> InfoHash h' = infoHash
       \<and> fst (snd (handshake decode infoHash peerID wres rres pc))
           = pc\<lparr>amChoking := True, amInterested := False,
                 peerChoking := True, peerInterested := False\<rparr>
       \<and> snd (snd (handshake decode infoHash peerID wres rres pc))
           = [EvConnWrite (WHandshake (NewHandshake (replicate 8 0) infoHash peerID))])"
proof -
  have a: "handshake decode infoHash peerID wres rres pc
         = (Inl errInfoHash, pc,
            [EvConnWrite (WHandshake (NewHandshake (replicate 8 0) infoHash peerID)), EvConnClose])"
    if "wres = None" "rres = Inr read" "decode read = Inr h" "InfoHash h \<noteq> infoHash"
    for decode read h
    using that by (simp add: handshake_def NewHandshake_def Let_def)
  have b: "handshake Handshake_Decode infoHash peerID None (Inr read) pc
         = (Inl errInfoHash, pc,
            [EvConnWrite (WHandshake (NewHandshake (replicate 8 0) infoHash peerID)), EvConnClose])"
    if "length read = 68" "take 20 (drop 28 read) \<noteq> infoHash"
    using that by (simp add: handshake_def NewHandshake_def Handshake_Decode_def Let_def)
  have c: "fst (snd (handshake decode infoHash peerID wres rres pc)) = pc
       \<and> snd (snd (handshake decode infoHash peerID wres rres pc))
           = [EvConnWrite (WHandshake (NewHandshake (replicate 8 0) infoHash peerID)), EvConnClose]"
    if "fst (handshake decode infoHash peerID wres rres pc) = Inl e"
    using that
    by (auto simp: handshake_def NewHandshake_def Let_def split: option.splits sum.splits if_splits)
  have d: "wres = None \<and> (\<exists>read'. rres = Inr read' \<and> decode read' = Inr h')
       \<and> InfoHash h' = infoHash
       \<and> fst (snd (handshake decode infoHash peerID wres rres pc))
           = pc\<lparr>amChoking := True, amInterested := False,
                 peerChoking := True, peerInterested := False\<rparr>
       \<and> snd (snd (handshake decode infoHash peerID wres rres pc))
           = [EvConnWrite (WHandshake (NewHandshake (replicate 8 0) infoHash peerID))]"
    if "fst (handshake decode infoHash peerID wres rres pc) = Inr h'"
    using that
    by (auto simp: handshake_def NewHandshake_def Let_def split: option.splits sum.splits if_splits)
  show ?thesis using a b c d by blast
qed

lemma ex_len: "length (ex_response hash) = 48 + length hash"
  by (simp add: ex_response_def)

lemma ex_hash_of: "length hash = 20 \<Longrightarrow> take 20 (drop 28 (ex_response hash)) = hash"
  by (simp add: ex_response_def)

lemma ex_decode: "length hash = 20 \<Longrightarrow>
  Handshake_Decode (ex_response hash)
    = Inr \<lparr>Reserved = replicate 8 0, InfoHash = hash, PeerID = replicate 20 3\<rparr>"
  by (simp add: Handshake_Decode_def ex_len ex_hash_of) (simp add: ex_response_def)

theorem C8_handshake_witness:
  "length (ex_response (replicate 20 9)) = 68
   \<and> take 20 (drop 28 (ex_response (replicate 20 9))) \<noteq> ex_hash
   \<and> handshake Handshake_Decode ex_hash ex_peerID None (Inr (ex_response (replicate 20 9))) ex_pc
        = (Inl errInfoHash, ex_pc,
           [EvConnWrite (WHandshake (NewHandshake (replicate 8 0) ex_hash ex_peerID)), EvConnClose])
   \<and> fst (handshake Handshake_Decode ex_hash ex_peerID None (Inr (ex_response ex_hash))
            (ex_pc\<lparr>amChoking := False, amInterested := True\<rparr>))
        = Inr \<lparr>Reserved = replicate 8 0, InfoHash = ex_hash, PeerID = replicate 20 3\<rparr>
   \<and> fst (snd (handshake Handshake_Decode ex_hash ex_peerID None (Inr (ex_response ex_hash))
            (ex_pc\<lparr>amChoking := False, amInterested := True\<rparr>)))
        = ex_pc"
proof -
  have l: "length (ex_response (replicate 20 9)) = 68" by (simp add: ex_len)
  have "replicate 20 (9 :: byte) \<noteq> replicate 20 1" by simp
  then have n: "take 20 (drop 28 (ex_response (replicate 20 9))) \<noteq> ex_hash"
    by (simp add: ex_hash_of ex_hash_def)
  note t1 = C8_handshake [of None "Inr (ex_response (replicate 20 9))" "ex_response (replicate 20 9)"
      Handshake_Decode _ ex_hash ex_peerID ex_pc]
  from t1 l n have c1: "handshake Handshake_Decode ex_hash ex_peerID None
        (Inr (ex_response (replicate 20 9))) ex_pc
        = (Inl errInfoHash, ex_pc,
           [EvConnWrite (WHandshake (NewHandshake (replicate 8 0) ex_hash ex_peerID)), EvConnClose])"
    by blast
  define pc0 where "pc0 = ex_pc\<lparr>amChoking := False, amInterested := True\<rparr>"
  have ok: "fst (handshake Handshake_Decode ex_hash ex_peerID None (Inr (ex_response ex_hash)) pc0)
      = Inr \<lparr>Reserved = replicate 8 0, InfoHash = ex_hash, PeerID = replicate 20 3\<rparr>"
    by (simp add: handshake_def NewHandshake_def Let_def ex_decode ex_hash_def)
  note t2 = C8_handshake [of None "Inr (ex_response ex_hash)" "ex_response ex_hash"
      Handshake_Decode _ ex_hash ex_peerID pc0 _
      "\<lparr>Reserved = replicate 8 0, InfoHash = ex_hash, PeerID = replicate 20 3\<rparr>"]
  from t2 ok have "fst (snd (handshake Handshake_Decode ex_hash ex_peerID None
        (Inr (ex_response ex_hash)) pc0))
      = pc0\<lparr>amChoking := True, amInterested := False, peerChoking := True, peerInterested := False\<rparr>"
    by blast
  then have c2: "fst (snd (handshake Handshake_Decode ex_hash ex_peerID None
        (Inr (ex_response ex_hash)) pc0)) = ex_pc"
    by (simp add: pc0_def ex_pc_def)
  from l n c1 ok c2 show ?thesis unfolding pc0_def by blast
qed

section \<open>The requests of a piece\<close>

lemma i64_mod32: "i64 x mod 2 ^ 32 = x mod 2 ^ 32"
proof -
  have d: "(2 ^ 32 :: int) dvd 2 ^ 64" by (rule le_imp_power_dvd) simp
  have z: "(2 ^ 63 :: int) mod 2 ^ 32 = 0"
    by (rule dvd_imp_mod_0) (rule le_imp_power_dvd, simp)
  have "i64 x mod 2 ^ 32 = ((x + 2 ^ 63) mod 2 ^ 64 mod 2 ^ 32 - 2 ^ 63 mod 2 ^ 32) mod 2 ^ 32"
    unfolding i64_def by (rule mod_diff_eq [symmetric])
  also have "(x + 2 ^ 63) mod 2 ^ 64 mod 2 ^ 32 = (x + 2 ^ 63) mod 2 ^ 32"
    by (rule mod_mod_cancel [OF d])
  also have "((x + 2 ^ 63) mod 2 ^ 32 - 2 ^ 63 mod 2 ^ 32) mod 2 ^ 32 = (x + 2 ^ 63 - 2 ^ 63) mod 2 ^ 32"
    by (rule mod_diff_eq)
  finally show ?thesis by simp
qed

lemma word_of_int_i64: "(word_of_int (i64 x) :: uint32) = word_of_int x"
proof -
  have "take_bit 32 (i64 x) = take_bit 32 x"
    by (simp only: take_bit_eq_mod i64_mod32)
  then show ?thesis by (simp add: word_of_int_eq_iff)
qed

lemma word_of_int_diff_i64:
  "(word_of_int (i64 (a - i64 b)) :: uint32) = word_of_int (a - b)"
proof -
  have "(word_of_int (i64 (a - i64 b)) :: uint32) = word_of_int (a - i64 b)"
    by (rule word_of_int_i64)
  also have "\<dots> = word_of_int a - word_of_int (i64 b)" by simp
  also have "\<dots> = word_of_int a - word_of_int b" by (simp only: word_of_int_i64)
  finally show ?thesis by simp
qed

lemma requestsOf_append: "requestsOf (xs @ ys) = requestsOf xs @ requestsOf ys"
  by (induction xs rule: requestsOf.induct) auto

lemma requestLoop_sound:
  "requestLoop isBlockDone sel wr index pieceLength blockCount js = (evs, ex) \<Longrightarrow>
   r \<in> set (requestsOf evs) \<Longrightarrow>
   \<exists>i\<in>set js. \<not> isBlockDone (i64 (blockSize * i)) \<and> r = requestOf index pieceLength blockCount i"
proof (induction js arbitrary: evs ex)
  case Nil
  then show ?case by simp
next
  case (Cons j js)
  show ?case
  proof (cases "isBlockDone (i64 (blockSize * j))")
    case True
    with Cons.prems have "requestLoop isBlockDone sel wr index pieceLength blockCount js = (evs, ex)"
      by (simp add: Let_def)
    from Cons.IH [OF this Cons.prems(2)] show ?thesis by auto
  next
    case False
    define req where "req = requestOf index pieceLength blockCount j"
    have reqeq: "\<lparr>Request_Index = word_of_int index,
        Request_Begin = word_of_int (i64 (blockSize * j)),
        Request_Length = (if j = blockCount - 1
           then word_of_int (i64 (pieceLength - i64 (blockSize * j)))
           else word_of_int blockSize)\<rparr> = req"
    proof -
      have "(word_of_int (i64 (pieceLength - i64 (blockSize * j))) :: uint32)
          = word_of_int (pieceLength - blockSize * j)"
        by (rule word_of_int_diff_i64)
      then show ?thesis
        by (auto simp: req_def requestOf_def word_of_int_i64 blockSize_def)
    qed
    show ?thesis
    proof (cases "select_err (sel j)")
      case (Some e)
      with False Cons.prems show ?thesis by (auto simp: Let_def)
    next
      case None
      show ?thesis
      proof (cases "wr j")
        case (Some e)
        with None False Cons.prems reqeq have "r = req" by (auto simp: Let_def)
        with False show ?thesis by (auto simp: req_def)
      next
        case wn: None
        obtain evs' ex' where l: "requestLoop isBlockDone sel wr index pieceLength blockCount js = (evs', ex')"
          by (cases "requestLoop isBlockDone sel wr index pieceLength blockCount js")
        with None wn False Cons.prems(1) reqeq have "evs = EvConnWrite (WRequest req) # evs'"
          by (auto simp: Let_def)
        with Cons.prems(2) have "r = req \<or> r \<in> set (requestsOf evs')" by auto
        then show ?thesis
        proof
          assume "r = req"
          with False show ?thesis by (auto simp: req_def)
        next
          assume "r \<in> set (requestsOf evs')"
          from Cons.IH [OF l this] show ?thesis by auto
        qed
      qed
    qed
  qed
qed

lemma requestLoop_complete:
  assumes "\<forall>i. select_err (sel i) = None" and "\<forall>i. wr i = None"
  shows "requestLoop isBlockDone sel wr index pieceLength blockCount js
     = (map (\<lambda>i. EvConnWrite (WRequest (requestOf index pieceLength blockCount i)))
          (filter (\<lambda>i. \<not> isBlockDone (i64 (blockSize * i))) js), LoopEnd)"
proof (induction js)
  case Nil
  then show ?case by simp
next
  case (Cons j js)
  have "(word_of_int (i64 (pieceLength - i64 (blockSize * j))) :: uint32)
      = word_of_int (pieceLength - blockSize * j)"
    by (rule word_of_int_diff_i64)
  with Cons assms show ?case
    by (auto simp: Let_def requestOf_def word_of_int_i64 blockSize_def)
qed

lemma uint_word_of_int_self:
  "0 \<le> x \<Longrightarrow> x < 2 ^ 32 \<Longrightarrow> uint (word_of_int x :: uint32) = x"
  by (simp add: uint_word_of_int_eq take_bit_int_eq_self)

lemma downloadPiece_requests:
  "requestsOf (fst (downloadPiece isBlockDone sel wr fin pieceLength blockCount index))
     = requestsOf (fst (requestLoop isBlockDone sel wr index pieceLength blockCount [0..blockCount - 1]))"
  by (auto simp: downloadPiece_def requestsOf_append split: prod.splits loop_exit.splits option.splits)

lemma request_fields:
  "(r \<in> set (requestsOf (fst (downloadPiece isBlockDone sel wr fin pieceLength blockCount index))) \<longrightarrow>
      (\<exists>i. 0 \<le> i \<and> i < blockCount \<and> \<not> isBlockDone (i64 (blockSize * i))
           \<and> r = requestOf index pieceLength blockCount i))
   \<and> ((\<forall>i. select_err (sel i) = None) \<and> (\<forall>i. wr i = None) \<longrightarrow>
        requestsOf (fst (downloadPiece isBlockDone sel wr fin pieceLength blockCount index))
          = map (requestOf index pieceLength blockCount)
              (filter (\<lambda>i. \<not> isBlockDone (i64 (blockSize * i))) [0..blockCount - 1]))
   \<and> blockSize = 16384
   \<and> (i \<noteq> blockCount - 1 \<longrightarrow>
        uint (Request_Length (requestOf index pieceLength blockCount i)) = 16384)
   \<and> (0 \<le> pieceLength - blockSize * (blockCount - 1)
        \<and> pieceLength - blockSize * (blockCount - 1) < 2 ^ 32 \<longrightarrow>
        uint (Request_Length (requestOf index pieceLength blockCount (blockCount - 1)))
          = pieceLength - blockSize * (blockCount - 1))
   \<and> (0 \<le> i \<and> blockSize * i < 2 ^ 32 \<longrightarrow>
        uint (Request_Begin (requestOf index pieceLength blockCount i)) = blockSize * i)"
proof -
  have a: "\<exists>i. 0 \<le> i \<and> i < blockCount \<and> \<not> isBlockDone (i64 (blockSize * i))
           \<and> r = requestOf index pieceLength blockCount i"
    if "r \<in> set (requestsOf (fst (downloadPiece isBlockDone sel wr fin pieceLength blockCount index)))"
  proof -
    obtain evs ex where l: "requestLoop isBlockDone sel wr index pieceLength blockCount
        [0..blockCount - 1] = (evs, ex)"
      by (cases "requestLoop isBlockDone sel wr index pieceLength blockCount [0..blockCount - 1]")
    from that have "r \<in> set (requestsOf evs)" by (simp add: downloadPiece_requests l)
    from requestLoop_sound [OF l this] show ?thesis by auto
  qed
  have b: "requestsOf (fst (downloadPiece isBlockDone sel wr fin pieceLength blockCount index))
          = map (requestOf index pieceLength blockCount)
              (filter (\<lambda>i. \<not> isBlockDone (i64 (blockSize * i))) [0..blockCount - 1])"
    if "\<forall>i. select_err (sel i) = None" "\<forall>i. wr i = None"
  proof -
    have m: "requestsOf (map (\<lambda>i. EvConnWrite (WRequest (f i))) js) = map f js" for f and js :: "int list"
      by (induction js) simp_all
    show ?thesis
      by (simp add: downloadPiece_requests requestLoop_complete [OF that] m)
  qed
  have c: "blockSize = 16384" by (simp add: blockSize_def)
  have d: "uint (Request_Length (requestOf index pieceLength blockCount i)) = 16384"
    if "i \<noteq> blockCount - 1"
    using that by (simp add: requestOf_def)
  have e: "uint (Request_Length (requestOf index pieceLength blockCount (blockCount - 1)))
          = pieceLength - blockSize * (blockCount - 1)"
    if "0 \<le> pieceLength - blockSize * (blockCount - 1)"
      "pieceLength - blockSize * (blockCount - 1) < 2 ^ 32"
    using uint_word_of_int_self [OF that] by (simp add: requestOf_def)
  have f: "uint (Request_Begin (requestOf index pieceLength blockCount i)) = blockSize * i"
    if "0 \<le> i" "blockSize * i < 2 ^ 32"
  proof -
    from that(1) have "0 \<le> blockSize * i" by (simp add: blockSize_def)
    from uint_word_of_int_self [OF this that(2)] show ?thesis by (simp add: requestOf_def)
  qed
  show ?thesis using a b c d e f by blast
qed

lemma blockCountOf_bounds:
  assumes "0 < pieceLength"
  shows "0 < pieceLength - blockSize * (blockCountOf pieceLength - 1)"
    and "pieceLength - blockSize * (blockCountOf pieceLength - 1) \<le> blockSize"
proof -
  define q where "q = (pieceLength + 16383) div 16384"
  define m where "m = (pieceLength + 16383) mod 16384"
  have "q * 16384 + m = pieceLength + 16383"
    unfolding q_def m_def by (rule div_mult_mod_eq)
  then have "pieceLength = q * 16384 + m - 16383" by simp
  then have "pieceLength - 16384 * (q - 1) = 1 + m" by (simp add: algebra_simps)
  moreover have "0 \<le> m" "m < 16384" unfolding m_def by simp_all
  ultimately
  have "0 < pieceLength - 16384 * (q - 1)" "pieceLength - 16384 * (q - 1) \<le> 16384"
    by simp_all
  then show "0 < pieceLength - blockSize * (blockCountOf pieceLength - 1)"
    and "pieceLength - blockSize * (blockCountOf pieceLength - 1) \<le> blockSize"
    by (simp_all add: blockCountOf_def blockSize_def q_def)
qed

lemma request_fields_exact:
  assumes pos: "0 < pieceLength" and small: "pieceLength \<le> 2 ^ 32"
    and r: "r \<in> set (requestsOf (fst (downloadPiece isBlockDone sel wr fin pieceLength
              (blockCountOf pieceLength) index)))"
  shows "\<exists>i. 0 \<le> i \<and> i < blockCountOf pieceLength
      \<and> uint (Request_Begin r) = blockSize * i
      \<and> uint (Request_Length r)
          = (if i = blockCountOf pieceLength - 1
             then pieceLength - blockSize * (blockCountOf pieceLength - 1) else 16384)"
proof -
  from request_fields [of r isBlockDone sel wr fin pieceLength "blockCountOf pieceLength" index] r
  obtain i where i: "0 \<le> i" "i < blockCountOf pieceLength"
    "r = requestOf index pieceLength (blockCountOf pieceLength) i" by blast
  note b = blockCountOf_bounds [OF pos]
  have "blockSize * i \<le> blockSize * (blockCountOf pieceLength - 1)"
    using i(2) by (simp add: blockSize_def)
  with b(1) small have lt: "blockSize * i < 2 ^ 32" by linarith
  have bs: "blockSize < 2 ^ 32" by (simp add: blockSize_def)
  from request_fields [of r isBlockDone sel wr fin pieceLength "blockCountOf pieceLength" index i]
    i(1) lt have beg: "uint (Request_Begin r) = blockSize * i" unfolding i(3) by blast
  have len: "uint (Request_Length r)
          = (if i = blockCountOf pieceLength - 1
             then pieceLength - blockSize * (blockCountOf pieceLength - 1) else 16384)"
  proof (cases "i = blockCountOf pieceLength - 1")
    case True
    from b bs have "0 \<le> pieceLength - blockSize * (blockCountOf pieceLength - 1)"
      "pieceLength - blockSize * (blockCountOf pieceLength - 1) < 2 ^ 32" by linarith+
    with request_fields [of r isBlockDone sel wr fin pieceLength "blockCountOf pieceLength" index i]
    show ?thesis unfolding i(3) using True by simp
  next
    case False
    with request_fields [of r isBlockDone sel wr fin pieceLength "blockCountOf pieceLength" index i]
    show ?thesis unfolding i(3) by simp
  qed
  from i(1,2) beg len show ?thesis by blast
qed


text \<open>Claim C9. Every request that \<^verbatim>\<open>downloadPiece\<close> writes is the request of a
  block index \<open>i\<close> below the block count, for a block that is not done: its
  offset is the block size times \<open>i\<close> and its length is the block size of 16384
  bytes, except for the last block \<open>blockCount - 1\<close>, whose length is
  \<open>pieceLength - blockSize * (blockCount - 1)\<close>. When no select and no write
  fails, every block that is not done is requested, in order. The fields are
  \<^verbatim>\<open>uint32\<close> values: they hold these numbers exactly whenever the numbers fit,
  and they do for every piece of at most \<open>2^32\<close> bytes with the block count
  rounded up from the piece length.\<close>

theorem C9_request_lengths:
  "(r \<in> set (requestsOf (fst (downloadPiece isBlockDone sel wr fin pieceLength blockCount index))) \<longrightarrow>
      (\<exists>i. 0 \<le> i \<and> i < blockCount \<and> \<not> isBlockDone (i64 (blockSize * i))
           \<and> r = requestOf index pieceLength blockCount i))
   \<and> ((\<forall>i. select_err (sel i) = None) \<and> (\<forall>i. wr i = None) \<longrightarrow>
        requestsOf (fst (downloadPiece isBlockDone sel wr fin pieceLength blockCount index))
          = map (requestOf index pieceLength blockCount)
              (filter (\<lambda>i. \<not> isBlockDone (i64 (blockSize * i))) [0..blockCount - 1]))
   \<and> blockSize = 16384
   \<and> (i \<noteq> blockCount - 1 \<longrightarrow>
        uint (Request_Length (requestOf index pieceLength blockCount i)) = 16384)
   \<and> (0 \<le> pieceLength - blockSize * (blockCount - 1)
        \<and> pieceLength - blockSize * (blockCount - 1) < 2 ^ 32 \<longrightarrow>
        uint (Request_Length (requestOf index pieceLength blockCount (blockCount - 1)))
          = pieceLength - blockSize * (blockCount - 1))
   \<and> (0 \<le> i \<and> blockSize * i < 2 ^ 32 \<longrightarrow>
        uint (Request_Begin (requestOf index pieceLength blockCount i)) = blockSize * i)
   \<and> (0 < pieceLength \<and> pieceLength \<le> 2 ^ 32
        \<and> r \<in> set (requestsOf (fst (downloadPiece isBlockDone sel wr fin pieceLength
                (blockCountOf pieceLength) index))) \<longrightarrow>
        (\<exists>i. 0 \<le> i \<and> i < blockCountOf pieceLength
           \<and> uint (Request_Begin r) = blockSize * i
           \<and> uint (Request_Length r)
               = (if i = blockCountOf pieceLength - 1
                  then pieceLength - blockSize * (blockCountOf pieceLength - 1) else 16384)))"
  using request_fields [of r isBlockDone sel wr fin pieceLength blockCount index i]
    request_fields_exact [of pieceLength r isBlockDone sel wr fin index]
  by blast

theorem C9_request_lengths_witness:
  "requestsOf (fst (downloadPiece ex_isBlockDone (\<lambda>i. QueueSlot) (\<lambda>i. None)
       (FromDownloaded None) 40000 3 7))
     = [\<lparr>Request_Index = 7, Request_Begin = 0, Request_Length = 16384\<rparr>,
        \<lparr>Request_Index = 7, Request_Begin = 32768, Request_Length = 7232\<rparr>]
   \<and> \<lparr>Request_Index = 7, Request_Begin = 32768, Request_Length = 7232\<rparr>
       \<in> set (requestsOf (fst (downloadPiece ex_isBlockDone (\<lambda>i. QueueSlot) (\<lambda>i. None)
             (FromDownloaded None) 40000 3 7)))
   \<and> (\<exists>i. 0 \<le> i \<and> i < 3 \<and> \<not> ex_isBlockDone (i64 (blockSize * i))
         \<and> \<lparr>Request_Index = 7, Request_Begin = 32768, Request_Length = 7232\<rparr>
             = requestOf 7 40000 3 i)
   \<and> uint (Request_Length (requestOf 7 40000 3 0)) = 16384
   \<and> uint (Request_Length (requestOf 7 40000 3 (3 - 1))) = 40000 - blockSize * (3 - 1)
   \<and> uint (Request_Begin (requestOf 7 40000 3 2)) = blockSize * 2
   \<and> (\<exists>i. 0 \<le> i \<and> i < blockCountOf 40000
       \<and> uint (Request_Begin \<lparr>Request_Index = 7, Request_Begin = 32768, Request_Length = 7232\<rparr>)
           = blockSize * i
       \<and> uint (Request_Length \<lparr>Request_Index = 7, Request_Begin = 32768, Request_Length = 7232\<rparr>)
           = (if i = blockCountOf 40000 - 1
              then 40000 - blockSize * (blockCountOf 40000 - 1) else 16384))"
proof -
  note t0 = C9_request_lengths [of "\<lparr>Request_Index = 7, Request_Begin = 32768, Request_Length = 7232\<rparr>"
      ex_isBlockDone "\<lambda>i. QueueSlot" "\<lambda>i. None" "FromDownloaded None" 40000 3 7 0]
  note t2 = C9_request_lengths [of "\<lparr>Request_Index = 7, Request_Begin = 32768, Request_Length = 7232\<rparr>"
      ex_isBlockDone "\<lambda>i. QueueSlot" "\<lambda>i. None" "FromDownloaded None" 40000 3 7 2]
  have up: "[0..3 - 1] = [0, 1, 2 :: int]" by code_simp
  have fl: "filter (\<lambda>i. \<not> ex_isBlockDone (i64 (blockSize * i))) [0, 1, 2] = [0, 2]"
    by (simp add: ex_isBlockDone_def i64_def blockSize_def)
  have h1: "\<forall>i. select_err ((\<lambda>i. QueueSlot) i) = None" by simp
  have h2: "\<forall>i::int. (\<lambda>i. None :: error option) i = None" by simp
  from t0 h1 h2 have "requestsOf (fst (downloadPiece ex_isBlockDone (\<lambda>i. QueueSlot) (\<lambda>i. None)
       (FromDownloaded None) 40000 3 7))
     = map (requestOf 7 40000 3) (filter (\<lambda>i. \<not> ex_isBlockDone (i64 (blockSize * i))) [0..3 - 1])"
    by blast
  then have c1: "requestsOf (fst (downloadPiece ex_isBlockDone (\<lambda>i. QueueSlot) (\<lambda>i. None)
       (FromDownloaded None) 40000 3 7))
     = [\<lparr>Request_Index = 7, Request_Begin = 0, Request_Length = 16384\<rparr>,
        \<lparr>Request_Index = 7, Request_Begin = 32768, Request_Length = 7232\<rparr>]"
    by (simp only: up fl) (simp add: requestOf_def blockSize_def)
  then have c2: "\<lparr>Request_Index = 7, Request_Begin = 32768, Request_Length = 7232\<rparr>
       \<in> set (requestsOf (fst (downloadPiece ex_isBlockDone (\<lambda>i. QueueSlot) (\<lambda>i. None)
             (FromDownloaded None) 40000 3 7)))" by simp
  from t0 c2 have c3: "\<exists>i. 0 \<le> i \<and> i < 3 \<and> \<not> ex_isBlockDone (i64 (blockSize * i))
         \<and> \<lparr>Request_Index = 7, Request_Begin = 32768, Request_Length = 7232\<rparr>
             = requestOf 7 40000 3 i" by blast
  from t0 have c4: "uint (Request_Length (requestOf 7 40000 3 0)) = 16384" by simp
  have "(0::int) \<le> 40000 - blockSize * (3 - 1)" "40000 - blockSize * (3 - 1) < (2 ^ 32 :: int)"
    by (simp_all add: blockSize_def)
  with t0 have c5: "uint (Request_Length (requestOf 7 40000 3 (3 - 1))) = 40000 - blockSize * (3 - 1)"
    by blast
  have "(0::int) \<le> 2" "blockSize * 2 < (2 ^ 32 :: int)" by (simp_all add: blockSize_def)
  with t2 have c6: "uint (Request_Begin (requestOf 7 40000 3 2)) = blockSize * 2" by blast
  have bc: "blockCountOf 40000 = 3" by (simp add: blockCountOf_def blockSize_def)
  have "(0::int) < 40000" "(40000::int) \<le> 2 ^ 32" by simp_all
  with t0 c2 bc have c7: "\<exists>i. 0 \<le> i \<and> i < blockCountOf 40000
       \<and> uint (Request_Begin \<lparr>Request_Index = 7, Request_Begin = 32768, Request_Length = 7232\<rparr>)
           = blockSize * i
       \<and> uint (Request_Length \<lparr>Request_Index = 7, Request_Begin = 32768, Request_Length = 7232\<rparr>)
           = (if i = blockCountOf 40000 - 1
              then 40000 - blockSize * (blockCountOf 40000 - 1) else 16384)"
    by simp
  from c1 c2 c3 c4 c5 c6 c7 show ?thesis by blast
qed

section \<open>A failed write\<close>

lemma chained_upper:
  "chained fbs a \<Longrightarrow> fbs \<noteq> [] \<Longrightarrow> \<forall>g\<in>set fbs. blockEnd g \<le> blockEnd (last fbs)"
proof (induction fbs arbitrary: a)
  case Nil
  then show ?case by simp
next
  case (Cons fb fbs)
  then have c: "chained fbs (blockEnd fb)" by simp
  show ?case
  proof (cases "fbs = []")
    case True
    then show ?thesis by simp
  next
    case False
    then have "last fbs \<in> set fbs" by simp
    with chained_lower [OF c] have "blockEnd fb \<le> blockEnd (last fbs)" by force
    with Cons.IH [OF c False] False show ?thesis by auto
  qed
qed

lemma chained_sliceable:
  assumes "chained fbs 0" and "fbs \<noteq> []" and "blockEnd (last fbs) = int (length block)"
  shows "sliceable block fbs"
  using chained_lower [OF assms(1)] chained_upper [OF assms(1,2)] assms(3)
  by (auto simp: sliceable_def list_all_iff)

lemma slice_range_sliceable:
  "sliceable block (f # fbs) \<Longrightarrow>
     slice_range block (blockBegin f) (blockEnd f) = Inr (bytesOf block f)"
  by (simp add: sliceable_def slice_range_def bytesOf_def)

lemma writeBlocks_step_ok:
  assumes "sliceable block (f # fbs)" and "attempt wr root k f = IoOk"
  shows "writeBlocks wr root block k (f # fbs) =
     (okEvents root block f @ fst (writeBlocks wr root block (Suc k) fbs),
      snd (writeBlocks wr root block (Suc k) fbs))"
proof -
  from assms(2) have "wr k (Join [root, filepath f]) \<noteq> OpenFileErr"
    and "wr k (Join [root, filepath f]) \<noteq> WriteAtErr" and "\<not> fileSeek f < 0"
    by (auto simp: attempt_def split: if_splits)
  with slice_range_sliceable [OF assms(1)] show ?thesis
    by (simp add: Let_def okEvents_def split: prod.splits)
qed

lemma writeBlocks_step_fail:
  assumes "sliceable block (f # fbs)" and "attempt wr root k f \<noteq> IoOk"
  shows "writeBlocks wr root block k (f # fbs) =
     (failEvents root block f (attempt wr root k f), WriteFailed)"
proof (cases "wr k (Join [root, filepath f]) = OpenFileErr")
  case True
  then show ?thesis by (simp add: Let_def failEvents_def attempt_def)
next
  case False
  with assms(2) have w: "wr k (Join [root, filepath f]) = WriteAtErr \<or> fileSeek f < 0"
    and a: "attempt wr root k f = WriteAtErr"
    by (auto simp: attempt_def split: if_splits)
  from False w a slice_range_sliceable [OF assms(1)] show ?thesis
    by (auto simp: Let_def failEvents_def)
qed

lemma writeBlocks_first_failure:
  assumes "sliceable block fbs" and "k < length fbs"
    and "attempt wr root (k0 + k) (fbs ! k) \<noteq> IoOk"
    and "\<forall>j<k. attempt wr root (k0 + j) (fbs ! j) = IoOk"
  shows "writeBlocks wr root block k0 fbs =
     (concat (map (okEvents root block) (take k fbs))
        @ failEvents root block (fbs ! k) (attempt wr root (k0 + k) (fbs ! k)), WriteFailed)"
  using assms
proof (induction fbs arbitrary: k0 k)
  case Nil
  then show ?case by simp
next
  case (Cons f fbs)
  show ?case
  proof (cases k)
    case 0
    with Cons.prems(3) have "attempt wr root k0 f \<noteq> IoOk" by simp
    from writeBlocks_step_fail [OF Cons.prems(1) this] 0 show ?thesis by simp
  next
    case (Suc k')
    from Cons.prems(4) Suc have ok: "attempt wr root k0 f = IoOk" by force
    have sl: "sliceable block fbs" using Cons.prems(1) by (simp add: sliceable_def)
    have k': "k' < length fbs" using Cons.prems(2) Suc by simp
    have f': "attempt wr root (Suc k0 + k') (fbs ! k') \<noteq> IoOk"
      using Cons.prems(3) Suc by simp
    have o': "\<forall>j<k'. attempt wr root (Suc k0 + j) (fbs ! j) = IoOk"
    proof (intro allI impI)
      fix j assume "j < k'"
      then have "Suc j < k" using Suc by simp
      with Cons.prems(4) have "attempt wr root (k0 + Suc j) ((f # fbs) ! Suc j) = IoOk" by blast
      then show "attempt wr root (Suc k0 + j) (fbs ! j) = IoOk" by simp
    qed
    from Cons.IH [OF sl k' f' o'] writeBlocks_step_ok [OF Cons.prems(1) ok] Suc
    show ?thesis by simp
  qed
qed

lemma writeBlocks_all_ok:
  assumes "sliceable block fbs"
    and "\<forall>j<length fbs. attempt wr root (k0 + j) (fbs ! j) = IoOk"
  shows "writeBlocks wr root block k0 fbs = (concat (map (okEvents root block) fbs), WriteOk)"
  using assms
proof (induction fbs arbitrary: k0)
  case Nil
  then show ?case by simp
next
  case (Cons f fbs)
  from Cons.prems(2) have ok: "attempt wr root k0 f = IoOk" by force
  have sl: "sliceable block fbs" using Cons.prems(1) by (simp add: sliceable_def)
  have o': "\<forall>j<length fbs. attempt wr root (Suc k0 + j) (fbs ! j) = IoOk"
  proof (intro allI impI)
    fix j assume "j < length fbs"
    then have "Suc j < length (f # fbs)" by simp
    with Cons.prems(2) have "attempt wr root (k0 + Suc j) ((f # fbs) ! Suc j) = IoOk" by blast
    then show "attempt wr root (Suc k0 + j) (fbs ! j) = IoOk" by simp
  qed
  from Cons.IH [OF sl o'] writeBlocks_step_ok [OF Cons.prems(1) ok] show ?case by simp
qed

text \<open>Claim C3, amended. When the open or the write of a file block of a received
  block fails, and \<open>k\<close> is the first file block for which it does,
  \<^verbatim>\<open>handlePiece\<close> has written the \<open>k\<close> file blocks before it, sends the error
  \<open>errPieceCheckFailed\<close> on the completion channel (the error that a failed
  verification sends as well), closes the connection and returns: it attempts no
  further file block, does not mark the block done and takes nothing from the block
  queue. By \<open>chained_sliceable\<close> the slices are within the block whenever the
  file blocks tile it.\<close>

theorem C3_io_failure:
  assumes blocks: "fileBlocksOf (T_Info tor) (T_FileDetails tor) piece = Inr fbs"
    and slices: "sliceable (Piece_Block piece) fbs"
    and k: "k < length fbs"
    and fails: "attempt (os_write env) (T_Path tor) k (fbs ! k) \<noteq> IoOk"
    and before: "\<forall>j<k. attempt (os_write env) (T_Path tor) j (fbs ! j) = IoOk"
  shows "handlePiece sha1 ops tor env ps piece =
     (concat (map (okEvents (T_Path tor) (Piece_Block piece)) (take k fbs))
        @ failEvents (T_Path tor) (Piece_Block piece) (fbs ! k)
            (attempt (os_write env) (T_Path tor) k (fbs ! k))
        @ [EvSendDownloaded (Some errPieceCheckFailed), EvConnClose],
      ps, Returned)"
proof -
  from writeBlocks_first_failure [of "Piece_Block piece" fbs k "os_write env" "T_Path tor" 0]
    slices k fails before
  have "writeBlocks (os_write env) (T_Path tor) (Piece_Block piece) 0 fbs =
     (concat (map (okEvents (T_Path tor) (Piece_Block piece)) (take k fbs))
        @ failEvents (T_Path tor) (Piece_Block piece) (fbs ! k)
            (attempt (os_write env) (T_Path tor) k (fbs ! k)), WriteFailed)"
    by simp
  with blocks show ?thesis by (simp add: handlePiece_def)
qed

lemma ver_blocks:
  "fileBlocksOf (T_Info (ver_tor expected)) (T_FileDetails (ver_tor expected)) ver_piece
     = Inr [\<lparr>filepath = ''file0'', fileSeek = 0, blockBegin = 0, blockEnd = 10\<rparr>,
            \<lparr>filepath = ''file1'', fileSeek = 0, blockBegin = 10, blockEnd = 20\<rparr>]"
  by (simp add: fileBlocksOf_def fileBlocksAt_def blockBeginOf_def pieceBeginOf_def
      getWriteFile_def slice_from_def Join_def i64_def Let_def ex_fds_def ver_tor_def ver_piece_def)

lemma run_io_failure:
  "handlePiece (\<lambda>d. d) trackerOps (ver_tor (replicate 20 7)) fail_env ex_tracker ver_piece
     = ([EvOpenFile ''root/file0'' True,
         EvWriteAt ''root/file0'' (replicate 10 7) 0 True,
         EvOpenFile ''root/file1'' True,
         EvWriteAt ''root/file1'' (replicate 10 7) 0 False,
         EvSendDownloaded (Some errPieceCheckFailed), EvConnClose],
        ex_tracker, Returned)"
  by code_simp

lemma run_check_failure:
  "handlePiece (\<lambda>d. d) trackerOps (ver_tor (replicate 20 0)) ver_env ex_tracker ver_piece
     = ([EvOpenFile ''root/file0'' True,
         EvWriteAt ''root/file0'' (replicate 10 7) 0 True,
         EvOpenFile ''root/file1'' True,
         EvWriteAt ''root/file1'' (replicate 10 7) 0 True,
         EvSetBlockDone 0 0, EvDequeue,
         EvOpen ''root/file0'' True, EvSeek ''root/file0'' 0 True, EvCopyN ''root/file0'' 20 10,
         EvOpen ''root/file1'' True, EvSeek ''root/file1'' 0 True, EvCopyN ''root/file1'' 10 10,
         EvConnClose, EvSendDownloaded (Some errPieceCheckFailed), EvCloseDownloaded],
        ([1], [(0, 0)]), Returned)"
  by code_simp


text \<open>Claim C3 as stated asks for an error kind distinct from the one of a failed
  verification. The code sends the same \<open>errPieceCheckFailed\<close> in both cases: in
  the first run below the second write fails, in the second run every write
  succeeds and the digest differs from the expected hash.\<close>

theorem C3_io_failure_counterexample:
  "attempt (os_write fail_env) ''root'' 1
       \<lparr>filepath = ''file1'', fileSeek = 0, blockBegin = 10, blockEnd = 20\<rparr> = WriteAtErr
   \<and> downloadedSignals (fst (handlePiece (\<lambda>d. d) trackerOps (ver_tor (replicate 20 7))
         fail_env ex_tracker ver_piece)) = [Some errPieceCheckFailed]
   \<and> downloadedSignals (fst (handlePiece (\<lambda>d. d) trackerOps (ver_tor (replicate 20 0))
         ver_env ex_tracker ver_piece)) = [Some errPieceCheckFailed]"
  by (simp add: run_io_failure run_check_failure) (simp add: attempt_def fail_env_def)

theorem C3_io_failure_witness:
  "fileBlocksOf (T_Info (ver_tor (replicate 20 7))) (T_FileDetails (ver_tor (replicate 20 7))) ver_piece
     = Inr [\<lparr>filepath = ''file0'', fileSeek = 0, blockBegin = 0, blockEnd = 10\<rparr>,
            \<lparr>filepath = ''file1'', fileSeek = 0, blockBegin = 10, blockEnd = 20\<rparr>]
   \<and> sliceable (Piece_Block ver_piece)
        [\<lparr>filepath = ''file0'', fileSeek = 0, blockBegin = 0, blockEnd = 10\<rparr>,
         \<lparr>filepath = ''file1'', fileSeek = 0, blockBegin = 10, blockEnd = 20\<rparr>]
   \<and> attempt (os_write fail_env) (T_Path (ver_tor (replicate 20 7))) 0
        \<lparr>filepath = ''file0'', fileSeek = 0, blockBegin = 0, blockEnd = 10\<rparr> = IoOk
   \<and> attempt (os_write fail_env) (T_Path (ver_tor (replicate 20 7))) 1
        \<lparr>filepath = ''file1'', fileSeek = 0, blockBegin = 10, blockEnd = 20\<rparr> = WriteAtErr
   \<and> handlePiece (\<lambda>d. d) trackerOps (ver_tor (replicate 20 7)) fail_env ex_tracker ver_piece
     = ([EvOpenFile ''root/file0'' True,
         EvWriteAt ''root/file0'' (replicate 10 7) 0 True,
         EvOpenFile ''root/file1'' True,
         EvWriteAt ''root/file1'' (replicate 10 7) 0 False,
         EvSendDownloaded (Some errPieceCheckFailed), EvConnClose],
        ex_tracker, Returned)"
proof -
  define fb0 where "fb0 = \<lparr>filepath = ''file0'', fileSeek = 0, blockBegin = 0, blockEnd = 10\<rparr>"
  define fb1 where "fb1 = \<lparr>filepath = ''file1'', fileSeek = 0, blockBegin = 10, blockEnd = 20\<rparr>"
  define vt where "vt = ver_tor (replicate 20 7)"
  have h1: "fileBlocksOf (T_Info vt) (T_FileDetails vt) ver_piece = Inr [fb0, fb1]"
    unfolding vt_def fb0_def fb1_def by (rule ver_blocks)
  have h2: "sliceable (Piece_Block ver_piece) [fb0, fb1]"
    by (simp add: sliceable_def ver_piece_def fb0_def fb1_def)
  have h3: "(1::nat) < length [fb0, fb1]" by simp
  have a0: "attempt (os_write fail_env) (T_Path vt) 0 fb0 = IoOk"
    by (simp add: attempt_def fail_env_def fb0_def)
  have a1: "attempt (os_write fail_env) (T_Path vt) 1 fb1 = WriteAtErr"
    by (simp add: attempt_def fail_env_def fb1_def)
  have h4: "attempt (os_write fail_env) (T_Path vt) 1 ([fb0, fb1] ! 1) \<noteq> IoOk"
    using a1 by simp
  have h5: "\<forall>j<1. attempt (os_write fail_env) (T_Path vt) j ([fb0, fb1] ! j) = IoOk"
    using a0 by simp
  from C3_io_failure [OF h1 h2 h3 h4 h5, of "\<lambda>d. d" trackerOps ex_tracker]
  have "handlePiece (\<lambda>d. d) trackerOps vt fail_env ex_tracker ver_piece =
     (concat (map (okEvents (T_Path vt) (Piece_Block ver_piece)) (take 1 [fb0, fb1]))
        @ failEvents (T_Path vt) (Piece_Block ver_piece) ([fb0, fb1] ! 1)
            (attempt (os_write fail_env) (T_Path vt) 1 ([fb0, fb1] ! 1))
        @ [EvSendDownloaded (Some errPieceCheckFailed), EvConnClose],
      ex_tracker, Returned)" .
  then have c: "handlePiece (\<lambda>d. d) trackerOps vt fail_env ex_tracker ver_piece
     = ([EvOpenFile ''root/file0'' True,
         EvWriteAt ''root/file0'' (replicate 10 7) 0 True,
         EvOpenFile ''root/file1'' True,
         EvWriteAt ''root/file1'' (replicate 10 7) 0 False,
         EvSendDownloaded (Some errPieceCheckFailed), EvConnClose],
        ex_tracker, Returned)"
    using a1
    by (simp add: okEvents_def failEvents_def bytesOf_def Join_def vt_def ver_tor_def
        ver_piece_def fb0_def fb1_def)
  from h1 h2 a0 a1 c show ?thesis unfolding vt_def fb0_def fb1_def by blast
qed

section \<open>Verification of a piece in a nested file\<close>

text \<open>Claim C4 asks that the verification re-reads the files that the blocks of the
  piece were written to. The write opens the destination directory joined with all
  path segments of the file (lines 328 and 349); the verification opens the
  destination directory joined with the first segment alone (line 382). For a file
  in a directory the two differ: below, the block is written to
  \<open>root/dir/file\<close>, the verification opens \<open>root/dir\<close>, and the read of that
  directory fails, which the code turns into a panic.\<close>

theorem C4_nested_path_divergence:
  "handlePiece (\<lambda>d. d) trackerOps nested_tor nested_env ex_tracker ver_piece
     = ([EvOpenFile ''root/dir/file'' True,
         EvWriteAt ''root/dir/file'' (replicate 20 7) 0 True,
         EvSetBlockDone 0 0, EvDequeue,
         EvOpen ''root/dir'' True, EvSeek ''root/dir'' 0 True],
        ([1], [(0, 0)]), Panicked PanicCopy)"
  by code_simp

text \<open>With files at the top level the names agree: the same block over two such
  files is written, read back from the same two names and verified.\<close>

lemma run_verified:
  "handlePiece (\<lambda>d. d) trackerOps (ver_tor (replicate 20 7)) ver_env ex_tracker ver_piece
     = ([EvOpenFile ''root/file0'' True,
         EvWriteAt ''root/file0'' (replicate 10 7) 0 True,
         EvOpenFile ''root/file1'' True,
         EvWriteAt ''root/file1'' (replicate 10 7) 0 True,
         EvSetBlockDone 0 0, EvDequeue,
         EvOpen ''root/file0'' True, EvSeek ''root/file0'' 0 True, EvCopyN ''root/file0'' 20 10,
         EvOpen ''root/file1'' True, EvSeek ''root/file1'' 0 True, EvCopyN ''root/file1'' 10 10,
         EvConnClose, EvSendDownloaded None, EvCloseDownloaded],
        ([1], [(0, 0)]), Returned)"
  by code_simp

end
